theory Spec2Isabelle
  imports Main
begin

section \<open>Durations and clock readings (Go package \<^verbatim>\<open>time\<close>)\<close>

text \<open>
  \<^verbatim>\<open>time.Duration\<close> is an \<^verbatim>\<open>int64\<close> count of nanoseconds; it is modelled as an
  \<open>int\<close>, and every place where the library saturates or checks for wrap-around is written
  out. A clock reading (\<^verbatim>\<open>time.Now()\<close>) is an \<open>int\<close> of nanoseconds on the
  monotonic clock.
\<close>

type_synonym Duration = int
type_synonym Time = int

definition Second :: Duration where
  "Second = 1000000000"

definition maxDuration :: Duration where
  "maxDuration = 2 ^ 63 - 1"

definition minDuration :: Duration where
  "minDuration = - (2 ^ 63)"

text \<open>\<^verbatim>\<open>t.Sub(u)\<close>: the difference, saturated to the range of a Duration.\<close>

definition Time_Sub :: "Time \<Rightarrow> Time \<Rightarrow> Duration" where
  "Time_Sub t u =
     (if t - u > maxDuration then maxDuration
      else if t - u < minDuration then minDuration
      else t - u)"

text \<open>\<^verbatim>\<open>time.Until(t)\<close> is \<^verbatim>\<open>t.Sub(time.Now())\<close>; the clock reading is the second argument.\<close>

definition Until :: "Time \<Rightarrow> Time \<Rightarrow> Duration" where
  "Until t now = Time_Sub t now"

text \<open>Go's \<^verbatim>\<open>%\<close> truncates towards zero: the remainder has the sign of the dividend.\<close>

definition go_rem :: "int \<Rightarrow> int \<Rightarrow> int" where
  "go_rem a b = sgn a * (\<bar>a\<bar> mod \<bar>b\<bar>)"

text \<open>
  \<^verbatim>\<open>lessThanHalf(x, y)\<close> is \<^verbatim>\<open>uint64(x)+uint64(x) < uint64(y)\<close>; it is called with
  \<open>0 \<le> x < y\<close>, where the unsigned sum does not wrap.
\<close>

definition lessThanHalf :: "Duration \<Rightarrow> Duration \<Rightarrow> bool" where
  "lessThanHalf x y = (x + x < y)"

text \<open>
  \<^verbatim>\<open>d.Round(m)\<close>: the nearest multiple of \<open>m\<close>, halfway values away from zero. The
  library detects \<^verbatim>\<open>int64\<close> wrap-around of the rounded value by comparing it with \<open>d\<close>
  and then returns the largest (smallest) Duration; here the sum is exact and compared
  with the bound.
\<close>

definition Duration_Round :: "Duration \<Rightarrow> Duration \<Rightarrow> Duration" where
  "Duration_Round d m =
     (if m \<le> 0 then d
      else
        let r = go_rem d m in
        if d < 0 then
          (let r' = - r in
           if lessThanHalf r' m then d + r'
           else let d1 = d - m + r' in if minDuration \<le> d1 then d1 else minDuration)
        else if lessThanHalf r m then d - r
        else let d1 = d + m - r in if d1 \<le> maxDuration then d1 else maxDuration)"

subsection \<open>Printing a Duration (\<^verbatim>\<open>Duration.String\<close>, used by the verb \<^verbatim>\<open>%s\<close>)\<close>

text \<open>
  The library fills a buffer from its end; the model conses onto the text already
  written.
\<close>

definition digit_char :: "nat \<Rightarrow> char" where
  "digit_char n = ''0123456789'' ! n"

function fmtInt_loop :: "nat \<Rightarrow> string \<Rightarrow> string" where
  "fmtInt_loop v buf =
     (if v = 0 then buf else fmtInt_loop (v div 10) (digit_char (v mod 10) # buf))"
  by pat_completeness auto
termination
proof (relation "measure (\<lambda>(v, buf). v)")
  show "wf (measure (\<lambda>(v, buf). v))" by simp
next
  fix v :: nat and buf :: string
  assume "v \<noteq> 0"
  then have "v div 10 < v" by simp
  then show "((v div 10, digit_char (v mod 10) # buf), v, buf) \<in> measure (\<lambda>(v, buf). v)"
    by simp
qed

declare fmtInt_loop.simps [simp del]

definition fmtInt :: "string \<Rightarrow> nat \<Rightarrow> string" where
  "fmtInt buf v = (if v = 0 then CHR ''0'' # buf else fmtInt_loop v buf)"

text \<open>
  \<^verbatim>\<open>fmtFrac(buf, v, prec)\<close> prints the fraction of \<open>v / 10 ^ prec\<close>, leaving out trailing
  zeros and, when the fraction is zero, the decimal point; it returns \<open>v div 10 ^ prec\<close>.
\<close>

fun fmtFrac_loop :: "nat \<Rightarrow> string \<Rightarrow> nat \<Rightarrow> bool \<Rightarrow> string \<times> nat \<times> bool" where
  "fmtFrac_loop 0 buf v pr = (buf, v, pr)"
| "fmtFrac_loop (Suc i) buf v pr =
     (let digit = v mod 10;
          pr' = (pr \<or> digit \<noteq> 0);
          buf' = (if pr' then digit_char digit # buf else buf)
      in fmtFrac_loop i buf' (v div 10) pr')"

definition fmtFrac :: "string \<Rightarrow> nat \<Rightarrow> nat \<Rightarrow> string \<times> nat" where
  "fmtFrac buf v prec =
     (case fmtFrac_loop prec buf v False of
        (buf', v', pr) \<Rightarrow> (if pr then CHR ''.'' # buf' else buf', v'))"

text \<open>The micro sign is the two bytes C2 B5 of its UTF-8 encoding.\<close>

definition Duration_String :: "Duration \<Rightarrow> string" where
  "Duration_String d =
     (let u = nat \<bar>d\<bar>;
          body =
            (if u < nat Second then
               (if u = 0 then ''0s''
                else if u < 1000 then
                  (case fmtFrac ''ns'' u 0 of (b, u') \<Rightarrow> fmtInt b u')
                else if u < 1000000 then
                  (case fmtFrac ([CHR 0xC2, CHR 0xB5] @ ''s'') u 3 of (b, u') \<Rightarrow> fmtInt b u')
                else
                  (case fmtFrac ''ms'' u 6 of (b, u') \<Rightarrow> fmtInt b u'))
             else
               (case fmtFrac ''s'' u 9 of
                  (b, u1) \<Rightarrow>
                    let b1 = fmtInt b (u1 mod 60);
                        u2 = u1 div 60
                    in if u2 > 0 then
                         (let b2 = fmtInt (CHR ''m'' # b1) (u2 mod 60);
                              u3 = u2 div 60
                          in if u3 > 0 then fmtInt (CHR ''h'' # b2) u3 else b2)
                       else b1))
      in if d < 0 then CHR ''-'' # body else body)"

section \<open>The rate-limit store (library \<^verbatim>\<open>ttlcache\<close>)\<close>

text \<open>
  Modelled from the spec: the store is the third-party cache \<^verbatim>\<open>ttlcache.Cache\<close>, whose
  code is not part of the repository. The model follows section 4.2 of the specification
  (\<open>Set\<close>, \<open>Probe\<close>, \<open>Remove\<close> on a map from keys to entries with an expiry) and keeps
  the one switch the limiter's constructor sets, \<^verbatim>\<open>SkipTTLExtensionOnHit\<close>: with the
  switch off a hit restarts the entry's time to live and reports the full time to live,
  with the switch on a hit leaves the entry alone and reports the time that remains.
  The stored value (always \<^verbatim>\<open>true\<close>) is left out. Each operation that reads the clock
  takes the reading as an argument.
\<close>

record item =
  item_ttl :: Duration
  expireAt :: Time

record Cache =
  items :: "string \<rightharpoonup> item"
  skipTTLExtension :: bool

datatype cache_error = ErrNotFound

definition NewCache :: Cache where
  "NewCache = \<lparr>items = Map.empty, skipTTLExtension = False\<rparr>"

definition SkipTTLExtensionOnHit :: "Cache \<Rightarrow> bool \<Rightarrow> Cache" where
  "SkipTTLExtensionOnHit c v = c\<lparr>skipTTLExtension := v\<rparr>"

text \<open>An entry without a positive time to live never expires.\<close>

definition expired :: "item \<Rightarrow> Time \<Rightarrow> bool" where
  "expired it now = (if item_ttl it \<le> 0 then False else expireAt it < now)"

definition touch :: "item \<Rightarrow> Time \<Rightarrow> item" where
  "touch it now = (if item_ttl it > 0 then it\<lparr>expireAt := now + item_ttl it\<rparr> else it)"

text \<open>
  The entry a lookup sees: none when the key has no entry or its entry has expired
  (whether or not it has been purged).
\<close>

text \<open>
  \<^verbatim>\<open>SetWithTTL(key, true, ttl)\<close>: insert or overwrite, with a fresh expiry. A time to live
  of zero would select the cache's global time to live, which is never set here (zero:
  no expiry).
\<close>

definition getItem :: "Cache \<Rightarrow> Time \<Rightarrow> string \<Rightarrow> item option" where
  "getItem c now key =
     (case items c key of
        None \<Rightarrow> None
      | Some it \<Rightarrow> if expired it now then None else Some it)"

definition SetWithTTL :: "Cache \<Rightarrow> Time \<Rightarrow> string \<Rightarrow> Duration \<Rightarrow> Cache" where
  "SetWithTTL c now key d =
     (let it = (case getItem c now key of
                  Some old \<Rightarrow> old\<lparr>item_ttl := d\<rparr>
                | None \<Rightarrow> \<lparr>item_ttl = d, expireAt = 0\<rparr>)
      in c\<lparr>items := (items c)(key \<mapsto> touch it now)\<rparr>)"

text \<open>
  \<^verbatim>\<open>GetWithTTL(key)\<close>: the error \<^verbatim>\<open>ErrNotFound\<close> when the key has no entry or its
  entry has expired, else the reported time to live, never negative.
\<close>

definition GetWithTTL :: "Cache \<Rightarrow> Time \<Rightarrow> string \<Rightarrow> (cache_error + Duration) \<times> Cache" where
  "GetWithTTL c now key =
     (case getItem c now key of
        None \<Rightarrow> (Inl ErrNotFound, c)
      | Some it \<Rightarrow>
          if skipTTLExtension c then (Inr (max 0 (Until (expireAt it) now)), c)
          else (Inr (max 0 (item_ttl it)), c\<lparr>items := (items c)(key \<mapsto> touch it now)\<rparr>))"

text \<open>\<^verbatim>\<open>Remove(key)\<close>: delete the entry; the error for a missing key is ignored by the caller.\<close>

definition Remove :: "Cache \<Rightarrow> string \<Rightarrow> Cache" where
  "Remove c key = c\<lparr>items := (items c)(key := None)\<rparr>"

section \<open>Requests and responses (Go package \<^verbatim>\<open>net/http\<close>, \<^verbatim>\<open>negroni\<close>)\<close>

text \<open>
  Of a request the middleware reads the header map and the remote address.
  \<^verbatim>\<open>Header.Get\<close> returns the first value stored under the key, and the empty string
  when there is none.
\<close>

record Request =
  Header :: "string \<rightharpoonup> string list"
  RemoteAddr :: string

definition Header_Get :: "(string \<rightharpoonup> string list) \<Rightarrow> string \<Rightarrow> string" where
  "Header_Get h key = (case h key of None \<Rightarrow> [] | Some [] \<Rightarrow> [] | Some (v # _) \<Rightarrow> v)"

definition StatusOK :: int where
  "StatusOK = 200"

definition StatusTooManyRequests :: int where
  "StatusTooManyRequests = 429"

definition StatusInternalServerError :: int where
  "StatusInternalServerError = 500"

text \<open>\<^verbatim>\<open>http.StatusText\<close>, for the one code the middleware passes.\<close>

definition StatusText :: "int \<Rightarrow> string" where
  "StatusText code = (if code = 500 then ''Internal Server Error'' else [])"

record claimResponse =
  Message :: string

text \<open>
  The response writer is negroni's: the middleware has negroni's handler signature and
  reads \<^verbatim>\<open>Status()\<close> from the writer, which is \<open>0\<close> until a status is written.
\<close>

record ResponseWriter =
  Status :: int
  Body :: "claimResponse list"

definition newResponseWriter :: ResponseWriter where
  "newResponseWriter = \<lparr>Status = 0, Body = []\<rparr>"

text \<open>
  Modelled from the spec: \<^verbatim>\<open>renderJSON\<close> is defined in a file of the package that is not
  under src/. By section 6 of the specification it sends the JSON object
  \<^verbatim>\<open>{"message": text}\<close> with the given status; the body is kept as the value that is
  encoded.
\<close>

definition renderJSON :: "ResponseWriter \<Rightarrow> claimResponse \<Rightarrow> int \<Rightarrow> ResponseWriter" where
  "renderJSON w v code = w\<lparr>Status := code, Body := Body w @ [v]\<rparr>"

text \<open>
  The error of \<^verbatim>\<open>readAddress\<close>: a \<^verbatim>\<open>malformedRequest\<close> with its status and message, or
  any other error. \<^verbatim>\<open>readAddress\<close> itself is not under src/ and is a parameter of the
  model.
\<close>

datatype error = malformedRequest int string | otherError

section \<open>Strings (Go packages \<^verbatim>\<open>strings\<close> and \<^verbatim>\<open>net\<close>)\<close>

text \<open>
  A Go string is a sequence of bytes, here a \<open>string\<close>. \<^verbatim>\<open>strings.Split(s, ",")\<close>
  cuts at every comma and always returns at least one part.
\<close>

fun Split :: "string \<Rightarrow> char \<Rightarrow> string list" where
  "Split [] sep = [[]]"
| "Split (c # cs) sep =
     (if c = sep then [] # Split cs sep
      else (case Split cs sep of t # ts \<Rightarrow> (c # t) # ts | [] \<Rightarrow> [[c]]))"

text \<open>
  \<^verbatim>\<open>strings.TrimSpace\<close> removes leading and trailing white space as Unicode defines it.
  The white-space code points are the six ASCII ones and, above ASCII, U+0085, U+00A0,
  U+1680, U+2000 to U+200A, U+2028, U+2029, U+202F, U+205F and U+3000, which appear in
  the string as their UTF-8 encodings.
\<close>

definition asciiSpace :: "char \<Rightarrow> bool" where
  "asciiSpace c = (c \<in> set [CHR 0x09, CHR 0x0A, CHR 0x0B, CHR 0x0C, CHR 0x0D, CHR 0x20])"

definition unicodeSpaces :: "string list" where
  "unicodeSpaces =
     [[CHR 0xC2, CHR 0x85], [CHR 0xC2, CHR 0xA0], [CHR 0xE1, CHR 0x9A, CHR 0x80],
      [CHR 0xE2, CHR 0x80, CHR 0x80], [CHR 0xE2, CHR 0x80, CHR 0x81],
      [CHR 0xE2, CHR 0x80, CHR 0x82], [CHR 0xE2, CHR 0x80, CHR 0x83],
      [CHR 0xE2, CHR 0x80, CHR 0x84], [CHR 0xE2, CHR 0x80, CHR 0x85],
      [CHR 0xE2, CHR 0x80, CHR 0x86], [CHR 0xE2, CHR 0x80, CHR 0x87],
      [CHR 0xE2, CHR 0x80, CHR 0x88], [CHR 0xE2, CHR 0x80, CHR 0x89],
      [CHR 0xE2, CHR 0x80, CHR 0x8A], [CHR 0xE2, CHR 0x80, CHR 0xA8],
      [CHR 0xE2, CHR 0x80, CHR 0xA9], [CHR 0xE2, CHR 0x80, CHR 0xAF],
      [CHR 0xE2, CHR 0x81, CHR 0x9F], [CHR 0xE3, CHR 0x80, CHR 0x80]]"

text \<open>The width in bytes of the white-space character a string starts with; 0 if none.\<close>

definition leadingSpace :: "string \<Rightarrow> nat" where
  "leadingSpace s =
     (case s of
        [] \<Rightarrow> 0
      | c # _ \<Rightarrow>
          if asciiSpace c then 1
          else (case find (\<lambda>e. take (length e) s = e) unicodeSpaces of
                  Some e \<Rightarrow> length e
                | None \<Rightarrow> 0))"

text \<open>The width in bytes of the white-space character a string ends with; 0 if none.\<close>

definition trailingSpace :: "string \<Rightarrow> nat" where
  "trailingSpace s =
     (case rev s of
        [] \<Rightarrow> 0
      | c # _ \<Rightarrow>
          if asciiSpace c then 1
          else (case find (\<lambda>e. length e \<le> length s \<and> drop (length s - length e) s = e)
                       unicodeSpaces of
                  Some e \<Rightarrow> length e
                | None \<Rightarrow> 0))"

function TrimLeftSpace :: "string \<Rightarrow> string" where
  "TrimLeftSpace s =
     (if leadingSpace s = 0 \<or> s = [] then s else TrimLeftSpace (drop (leadingSpace s) s))"
  by pat_completeness auto
termination
proof (relation "measure length")
  show "wf (measure length)" by simp
next
  fix s :: string
  assume "\<not> (leadingSpace s = 0 \<or> s = [])"
  then have "0 < leadingSpace s" and "s \<noteq> []" by simp_all
  then have "length (drop (leadingSpace s) s) < length s" by simp
  then show "(drop (leadingSpace s) s, s) \<in> measure length" by simp
qed

declare TrimLeftSpace.simps [simp del]

function TrimRightSpace :: "string \<Rightarrow> string" where
  "TrimRightSpace s =
     (if trailingSpace s = 0 \<or> s = [] then s
      else TrimRightSpace (take (length s - trailingSpace s) s))"
  by pat_completeness auto
termination
proof (relation "measure length")
  show "wf (measure length)" by simp
next
  fix s :: string
  assume "\<not> (trailingSpace s = 0 \<or> s = [])"
  then have "0 < trailingSpace s" and "s \<noteq> []" by simp_all
  then have "length (take (length s - trailingSpace s) s) < length s" by simp
  then show "(take (length s - trailingSpace s) s, s) \<in> measure length" by simp
qed

declare TrimRightSpace.simps [simp del]

definition TrimSpace :: "string \<Rightarrow> string" where
  "TrimSpace s = TrimRightSpace (TrimLeftSpace s)"

text \<open>
  \<^verbatim>\<open>IndexByte\<close> and \<^verbatim>\<open>LastIndexByte\<close>: the first and the last position of a byte, \<open>-1\<close>
  when it does not occur.
\<close>

definition IndexByte :: "string \<Rightarrow> char \<Rightarrow> int" where
  "IndexByte s c =
     (if c \<in> set s then int (length (takeWhile (\<lambda>x. x \<noteq> c) s)) else - 1)"

definition LastIndexByte :: "string \<Rightarrow> char \<Rightarrow> int" where
  "LastIndexByte s c =
     (if c \<in> set s
      then int (length s) - 1 - int (length (takeWhile (\<lambda>x. x \<noteq> c) (rev s)))
      else - 1)"

text \<open>
  \<^verbatim>\<open>net.SplitHostPort\<close> splits \<^verbatim>\<open>host:port\<close>, \<^verbatim>\<open>[host]:port\<close> into host and port at the
  last colon, and fails on a missing port, on further colons outside brackets and on
  stray brackets.
\<close>

datatype AddrError = AddrError string string

definition SplitHostPort :: "string \<Rightarrow> AddrError + (string \<times> string)" where
  "SplitHostPort hostport =
     (let missingPort = ''missing port in address'';
          tooManyColons = ''too many colons in address'';
          i = LastIndexByte hostport CHR '':''
      in
      if i < 0 then Inl (AddrError missingPort hostport)
      else
        let checks = (\<lambda>host j k.
              if IndexByte (drop j hostport) CHR ''['' \<ge> 0
              then Inl (AddrError (''unexpected '' @ [CHR 0x27] @ ''['' @ [CHR 0x27] @ '' in address'') hostport)
              else if IndexByte (drop k hostport) CHR '']'' \<ge> 0
              then Inl (AddrError (''unexpected '' @ [CHR 0x27] @ '']'' @ [CHR 0x27] @ '' in address'') hostport)
              else Inr (host, drop (nat i + 1) hostport))
        in
        if hd hostport = CHR ''['' then
          (let e = IndexByte hostport CHR '']'' in
           if e < 0 then Inl (AddrError (''missing '' @ [CHR 0x27] @ '']'' @ [CHR 0x27] @ '' in address'') hostport)
           else if e + 1 = int (length hostport) then Inl (AddrError missingPort hostport)
           else if e + 1 = i then checks (take (nat e - 1) (drop 1 hostport)) 1 (nat e + 1)
           else if hostport ! nat (e + 1) = CHR '':'' then Inl (AddrError tooManyColons hostport)
           else Inl (AddrError missingPort hostport))
        else
          (let host = take (nat i) hostport in
           if IndexByte host CHR '':'' \<ge> 0 then Inl (AddrError tooManyColons hostport)
           else checks host 0 0))"

section \<open>The identity resolver\<close>

text \<open>An index expression panics when the index is out of range.\<close>

datatype panic = IndexOutOfRange

definition index :: "'a list \<Rightarrow> int \<Rightarrow> panic + 'a" where
  "index xs i = (if 0 \<le> i \<and> i < int (length xs) then Inr (xs ! nat i) else Inl IndexOutOfRange)"

text \<open>
  \<^verbatim>\<open>getClientIPFromRequest\<close>: the inner \<open>Some\<close> is the early return from the
  forwarded-for branch, \<open>None\<close> falls through to the remote address.
\<close>

definition getClientIPFromRequest :: "int \<Rightarrow> Request \<Rightarrow> panic + string" where
  "getClientIPFromRequest proxyCount r =
     (case
        (if proxyCount > 0 then
           (let xForwardedFor = Header_Get (Header r) ''X-Forwarded-For'' in
            if xForwardedFor \<noteq> [] then
              (let xForwardedForParts = Split xForwardedFor CHR '','';
                   partIndex = int (length xForwardedForParts) - proxyCount;
                   partIndex = (if partIndex < 0 then 0 else partIndex)
               in Some (case index xForwardedForParts partIndex of
                          Inl p \<Rightarrow> Inl p
                        | Inr part \<Rightarrow> Inr (TrimSpace part)))
            else None)
         else None)
      of
        Some res \<Rightarrow> res
      | None \<Rightarrow>
          (case SplitHostPort (RemoteAddr r) of
             Inl err \<Rightarrow> Inr (RemoteAddr r)
           | Inr (remoteIP, port) \<Rightarrow> Inr remoteIP))"

section \<open>The admission filter\<close>

record Limiter =
  mutex :: bool
  cache :: Cache
  proxyCount :: int
  ttl :: Duration

definition NewLimiter :: "int \<Rightarrow> Duration \<Rightarrow> Limiter" where
  "NewLimiter pc d =
     (let c = NewCache;
          c = SkipTTLExtensionOnHit c True
      in \<lparr>mutex = False, cache = c, proxyCount = pc, ttl = d\<rparr>)"

text \<open>
  One request is served at a time. What a request can change is the limiter, the
  response writer and, kept beside them, the sequence of calls the middleware has made to
  its collaborators (the mutex, the store, the renderer, the next handler, the logger), in
  the order it made them. Each of the following steps is one such call.
\<close>

datatype call =
    Mutex_Lock
  | Mutex_Unlock
  | Cache_GetWithTTL string
  | Cache_SetWithTTL string Duration
  | Cache_Remove string
  | RenderJSON string int
  | Next_ServeHTTP
  | Log_Info string string

type_synonym state = "Limiter \<times> ResponseWriter \<times> call list"

type_synonym handler = "Request \<Rightarrow> ResponseWriter \<Rightarrow> ResponseWriter"

fun mutex_Lock :: "state \<Rightarrow> state" where
  "mutex_Lock (l, w, tr) = (l\<lparr>mutex := True\<rparr>, w, tr @ [Mutex_Lock])"

fun mutex_Unlock :: "state \<Rightarrow> state" where
  "mutex_Unlock (l, w, tr) = (l\<lparr>mutex := False\<rparr>, w, tr @ [Mutex_Unlock])"

fun cache_GetWithTTL :: "Time \<Rightarrow> string \<Rightarrow> state \<Rightarrow> (cache_error + Duration) \<times> state" where
  "cache_GetWithTTL now key (l, w, tr) =
     (case GetWithTTL (cache l) now key of
        (res, c) \<Rightarrow> (res, (l\<lparr>cache := c\<rparr>, w, tr @ [Cache_GetWithTTL key])))"

fun cache_SetWithTTL :: "Time \<Rightarrow> string \<Rightarrow> Duration \<Rightarrow> state \<Rightarrow> state" where
  "cache_SetWithTTL now key d (l, w, tr) =
     (l\<lparr>cache := SetWithTTL (cache l) now key d\<rparr>, w, tr @ [Cache_SetWithTTL key d])"

fun cache_Remove :: "string \<Rightarrow> state \<Rightarrow> state" where
  "cache_Remove key (l, w, tr) = (l\<lparr>cache := Remove (cache l) key\<rparr>, w, tr @ [Cache_Remove key])"

fun render :: "claimResponse \<Rightarrow> int \<Rightarrow> state \<Rightarrow> state" where
  "render v code (l, w, tr) = (l, renderJSON w v code, tr @ [RenderJSON (Message v) code])"

fun next_ServeHTTP :: "handler \<Rightarrow> Request \<Rightarrow> state \<Rightarrow> state" where
  "next_ServeHTTP next r (l, w, tr) = (l, next r w, tr @ [Next_ServeHTTP])"

fun log_Info :: "string \<Rightarrow> string \<Rightarrow> state \<Rightarrow> state" where
  "log_Info address clientIP (l, w, tr) = (l, w, tr @ [Log_Info address clientIP])"

text \<open>\<^verbatim>\<open>limitByKey\<close>; the clock reading of its lookup is the first argument.\<close>

definition limitByKey :: "Time \<Rightarrow> string \<Rightarrow> state \<Rightarrow> bool \<times> state" where
  "limitByKey now key s =
     (case cache_GetWithTTL now key s of
        (Inr d, s') \<Rightarrow>
          (let errMsg = ''You have exceeded the rate limit. Please wait ''
                 @ Duration_String (Duration_Round d Second) @ '' before you try again''
           in (True, render \<lparr>Message = errMsg\<rparr> StatusTooManyRequests s'))
      | (Inl err, s') \<Rightarrow> (False, s'))"

text \<open>
  \<^verbatim>\<open>ServeHTTP\<close>. \<open>readAddress\<close> is the package's address reader, \<open>next\<close> the next
  handler, and \<open>now i\<close> the clock reading of the \<open>i\<close>-th call this request makes to the
  store that reads the clock (the two lookups, then the two insertions).
\<close>

definition ServeHTTP ::
  "(Request \<Rightarrow> error + string) \<Rightarrow> (nat \<Rightarrow> Time) \<Rightarrow> handler \<Rightarrow> Request \<Rightarrow> state \<Rightarrow> panic + state" where
  "ServeHTTP readAddress now next r s =
     (case readAddress r of
        Inl err \<Rightarrow>
          (case err of
             malformedRequest status message \<Rightarrow> Inr (render \<lparr>Message = message\<rparr> status s)
           | otherError \<Rightarrow>
               Inr (render \<lparr>Message = StatusText StatusInternalServerError\<rparr>
                      StatusInternalServerError s))
      | Inr address \<Rightarrow>
          if ttl (fst s) \<le> 0 then Inr (next_ServeHTTP next r s)
          else
            (case getClientIPFromRequest (proxyCount (fst s)) r of
               Inl p \<Rightarrow> Inl p
             | Inr clientIP \<Rightarrow>
                 let s = mutex_Lock s in
                 (case limitByKey (now 0) address s of
                    (True, s) \<Rightarrow> Inr (mutex_Unlock s)
                  | (False, s) \<Rightarrow>
                      (case limitByKey (now 1) clientIP s of
                         (True, s) \<Rightarrow> Inr (mutex_Unlock s)
                       | (False, s) \<Rightarrow>
                           let s = cache_SetWithTTL (now 2) address (ttl (fst s)) s;
                               s = cache_SetWithTTL (now 3) clientIP (ttl (fst s)) s;
                               s = mutex_Unlock s;
                               s = next_ServeHTTP next r s
                           in if Status (fst (snd s)) \<noteq> StatusOK
                              then Inr (cache_Remove clientIP (cache_Remove address s))
                              else Inr (log_Info address clientIP s)))))"

section \<open>Notions used to state the properties\<close>

text \<open>
  What a lookup observes of the store: whether the key is present at a clock reading, and
  the time that remains until its entry expires.
\<close>

definition present :: "Cache \<Rightarrow> Time \<Rightarrow> string \<Rightarrow> bool" where
  "present c now key = (getItem c now key \<noteq> None)"

definition remainingTTL :: "Cache \<Rightarrow> Time \<Rightarrow> string \<Rightarrow> Duration" where
  "remainingTTL c now key =
     (case getItem c now key of None \<Rightarrow> 0 | Some it \<Rightarrow> max 0 (Until (expireAt it) now))"

text \<open>The text of a rejection that reports the wait \<open>d\<close>.\<close>

definition rejectionMessage :: "Duration \<Rightarrow> string" where
  "rejectionMessage d =
     ''You have exceeded the rate limit. Please wait ''
       @ Duration_String (Duration_Round d Second) @ '' before you try again''"

text \<open>
  The limiters a program can hold: one made by \<^verbatim>\<open>NewLimiter\<close> from a time to live in the
  range of a Duration, after any number of requests served one after the other.
\<close>

inductive reachable :: "Limiter \<Rightarrow> bool" where
  new: "minDuration \<le> d \<Longrightarrow> d \<le> maxDuration \<Longrightarrow> reachable (NewLimiter pc d)"
| serve: "reachable l \<Longrightarrow> ServeHTTP readAddress now next r (l, w, tr) = Inr (l', w', tr')
           \<Longrightarrow> reachable l'"

text \<open>
  What holds of every such limiter: lookups do not extend entries, the mutex is free
  between requests, and every entry carries the configured, positive time to live.
\<close>

definition limiter_ok :: "Limiter \<Rightarrow> bool" where
  "limiter_ok l =
     (skipTTLExtension (cache l) \<and> \<not> mutex l \<and> ttl l \<le> maxDuration
       \<and> (\<forall>key it. items (cache l) key = Some it \<longrightarrow> item_ttl it = ttl l \<and> 0 < ttl l))"

text \<open>
  The outcome of a request, read from the calls it made: it was admitted when the next
  handler was invoked, and rejected when a response with status 429 was rendered.
\<close>

definition admitted :: "call list \<Rightarrow> bool" where
  "admitted calls = (Next_ServeHTTP \<in> set calls)"

fun is_rejection :: "call \<Rightarrow> bool" where
  "is_rejection (RenderJSON msg code) = (code = StatusTooManyRequests)"
| "is_rejection _ = False"

definition rejected :: "call list \<Rightarrow> bool" where
  "rejected calls = list_ex is_rejection calls"

text \<open>Decimal notation, and a whole number of seconds as hours, minutes and seconds.\<close>

function decimal :: "nat \<Rightarrow> string" where
  "decimal n = (if n < 10 then [digit_char n] else decimal (n div 10) @ [digit_char (n mod 10)])"
  by pat_completeness auto
termination
proof (relation "measure (\<lambda>n. n)")
  show "wf (measure (\<lambda>n::nat. n))" by simp
next
  fix n :: nat
  assume "\<not> n < 10"
  then have "n div 10 < n" by simp
  then show "(n div 10, n) \<in> measure (\<lambda>n. n)" by simp
qed

declare decimal.simps [simp del]

definition hms :: "nat \<Rightarrow> string" where
  "hms n =
     (if n < 60 then decimal n @ ''s''
      else if n < 3600 then decimal (n div 60) @ ''m'' @ decimal (n mod 60) @ ''s''
      else decimal (n div 3600) @ ''h'' @ decimal (n div 60 mod 60) @ ''m''
             @ decimal (n mod 60) @ ''s'')"

text \<open>
  Collaborators for concrete runs: an address reader that finds a given address or fails
  with a given error, a next handler that writes a given status, and a clock that
  advances by one nanosecond from one reading to the next.
\<close>

definition address_found :: "string \<Rightarrow> Request \<Rightarrow> error + string" where
  "address_found a r = Inr a"

definition address_failed :: "error \<Rightarrow> Request \<Rightarrow> error + string" where
  "address_failed e r = Inl e"

definition respond :: "int \<Rightarrow> handler" where
  "respond code r w = w\<lparr>Status := code\<rparr>"

definition clock_from :: "Time \<Rightarrow> nat \<Rightarrow> Time" where
  "clock_from t i = t + int i"

text \<open>
  A request without a forwarded-for header from the remote address 10.0.0.7, and the
  limiter left by \<^verbatim>\<open>NewLimiter(0, d)\<close> once that request, with the address 0xabc, has been
  admitted on the clock \<open>clock_from 0\<close> and answered with status 200.
\<close>

definition example_request :: Request where
  "example_request = \<lparr>Header = Map.empty, RemoteAddr = ''10.0.0.7:5000''\<rparr>"

definition admitted_limiter :: "Duration \<Rightarrow> Limiter" where
  "admitted_limiter d =
     (NewLimiter 0 d)
       \<lparr>cache := SetWithTTL (SetWithTTL (cache (NewLimiter 0 d)) 2 ''0xabc'' d) 3 ''10.0.0.7'' d\<rparr>"

section \<open>Facts about the library models\<close>

subsection \<open>Printing\<close>

lemma fmtInt_loop_0: "fmtInt_loop 0 buf = buf"
  by (simp add: fmtInt_loop.simps)

lemma fmtInt_loop_pos:
  "v \<noteq> 0 \<Longrightarrow> fmtInt_loop v buf = fmtInt_loop (v div 10) (digit_char (v mod 10) # buf)"
  by (subst fmtInt_loop.simps) simp

lemma fmtFrac_loop_numeral:
  "fmtFrac_loop (numeral k) buf v pr =
     fmtFrac_loop (pred_numeral k)
       (if pr \<or> v mod 10 \<noteq> 0 then digit_char (v mod 10) # buf else buf)
       (v div 10) (pr \<or> v mod 10 \<noteq> 0)"
  using fmtFrac_loop.simps(2) [of "pred_numeral k" buf v pr]
  by (simp only: numeral_eq_Suc [symmetric, of k] Let_def)

lemma decimal_small: "n < 10 \<Longrightarrow> decimal n = [digit_char n]"
  by (subst decimal.simps) simp

lemma decimal_large: "\<not> n < 10 \<Longrightarrow> decimal n = decimal (n div 10) @ [digit_char (n mod 10)]"
  by (subst decimal.simps) simp

lemma fmtInt_loop_append: "fmtInt_loop v (a @ b) = fmtInt_loop v a @ b"
proof (induction v a rule: fmtInt_loop.induct)
  case (1 v buf)
  show ?case
  proof (cases "v = 0")
    case True
    then show ?thesis by (simp add: fmtInt_loop_0)
  next
    case False
    with 1 [OF False] show ?thesis by (simp add: fmtInt_loop_pos)
  qed
qed

lemma fmtInt_loop_decimal: "0 < v \<Longrightarrow> fmtInt_loop v [] = decimal v"
proof (induction v rule: decimal.induct)
  case (1 n)
  show ?case
  proof (cases "n < 10")
    case True
    with 1(2) have "n div 10 = 0" and "n \<noteq> 0" by simp_all
    then show ?thesis using True by (simp add: fmtInt_loop_pos fmtInt_loop_0 decimal_small)
  next
    case False
    then have pos: "0 < n div 10" by simp
    have "fmtInt_loop n [] = fmtInt_loop (n div 10) ([] @ [digit_char (n mod 10)])"
      using 1(2) by (simp add: fmtInt_loop_pos)
    also have "\<dots> = fmtInt_loop (n div 10) [] @ [digit_char (n mod 10)]"
      by (rule fmtInt_loop_append)
    also have "\<dots> = decimal (n div 10) @ [digit_char (n mod 10)]"
      using 1(1) [OF False pos] by simp
    finally show ?thesis using False by (simp add: decimal_large)
  qed
qed

lemma fmtInt_decimal: "fmtInt buf v = decimal v @ buf"
proof (cases "v = 0")
  case True
  then show ?thesis by (simp add: fmtInt_def decimal_small digit_char_def)
next
  case False
  then have "fmtInt buf v = fmtInt_loop v ([] @ buf)" by (simp add: fmtInt_def)
  also have "\<dots> = fmtInt_loop v [] @ buf" by (rule fmtInt_loop_append)
  finally show ?thesis using False by (simp add: fmtInt_loop_decimal)
qed

lemma fmtFrac_loop_multiple: "fmtFrac_loop k buf (n * 10 ^ k) False = (buf, n, False)"
  by (induction k arbitrary: n) (simp_all add: Let_def mult.assoc [symmetric])

lemma fmtFrac_seconds: "fmtFrac ''s'' (n * 1000000000) 9 = (''s'', n)"
proof -
  have "fmtFrac_loop 9 ''s'' (n * 10 ^ 9) False = (''s'', n, False)"
    by (rule fmtFrac_loop_multiple)
  then show ?thesis by (simp add: fmtFrac_def)
qed

lemma Duration_String_seconds: "Duration_String (int n * Second) = hms n"
proof (cases "n = 0")
  case True
  then show ?thesis by (simp add: Duration_String_def Second_def hms_def decimal_small digit_char_def)
next
  case False
  have u: "nat \<bar>int n * Second\<bar> = n * 1000000000"
    by (simp add: Second_def nat_mult_distrib abs_mult)
  have big: "\<not> n * 1000000000 < nat Second" using False by (simp add: Second_def)
  have neg: "\<not> int n * Second < 0" by (simp add: Second_def)
  have a: "(n div 60 = 0) = (n < 60)" and b: "(n div 3600 = 0) = (n < 3600)"
    and c: "(0 < n div 60) = (\<not> n < 60)" and d: "(0 < n div 3600) = (\<not> n < 3600)"
    by auto
  show ?thesis
    unfolding Duration_String_def u Let_def
    using big neg
    by (auto simp add: fmtFrac_seconds fmtInt_decimal hms_def div_mult2_eq [symmetric] a b c d)
qed

subsection \<open>Rounding\<close>

lemma Duration_Round_nonneg:
  assumes "0 \<le> d"
  shows "Duration_Round d Second =
           (if 2 * (d mod Second) < Second then d - d mod Second
            else min (d + Second - d mod Second) maxDuration)"
proof -
  have "go_rem d Second = d mod Second"
  proof (cases "d = 0")
    case True then show ?thesis by (simp add: go_rem_def)
  next
    case False
    with assms have "sgn d = 1" by simp
    with assms show ?thesis by (simp add: go_rem_def Second_def)
  qed
  with assms show ?thesis
    by (simp add: Duration_Round_def lessThanHalf_def Let_def Second_def min_def)
qed

lemma Duration_Round_mono:
  assumes "0 \<le> x" and "x \<le> y" and "y \<le> maxDuration"
  shows "Duration_Round x Second \<le> Duration_Round y Second"
proof -
  define qx rx qy ry where "qx = x div Second" and "rx = x mod Second"
    and "qy = y div Second" and "ry = y mod Second"
  have S: "Second = 1000000000" by (simp add: Second_def)
  have x: "x = qx * Second + rx" and y: "y = qy * Second + ry"
    by (simp_all add: qx_def rx_def qy_def ry_def)
  have rx: "0 \<le> rx" "rx < Second" and ry: "0 \<le> ry" "ry < Second"
    by (simp_all add: rx_def ry_def S)
  have q: "qx \<le> qy" using assms(2) by (simp add: qx_def qy_def S zdiv_mono1)
  have cases: "qx = qy \<and> rx \<le> ry \<or> qx + 1 \<le> qy"
    using q assms(2) x y by (cases "qx = qy") auto
  have step: "(qx + 1) * Second \<le> qy * Second" if "qx + 1 \<le> qy"
    using that by (simp add: S)
  have Rx: "Duration_Round x Second = (if 2 * rx < Second then x - rx else min (x + Second - rx) maxDuration)"
    using Duration_Round_nonneg [OF assms(1)] by (simp add: rx_def)
  have Ry: "Duration_Round y Second = (if 2 * ry < Second then y - ry else min (y + Second - ry) maxDuration)"
    using Duration_Round_nonneg [of y] assms by (simp add: ry_def)
  show ?thesis
    using cases
  proof
    assume "qx = qy \<and> rx \<le> ry"
    then show ?thesis unfolding Rx Ry using x y rx ry assms(3) by (auto simp: min_def)
  next
    assume "qx + 1 \<le> qy"
    from step [OF this] have "(qx + 1) * Second \<le> qy * Second" .
    then have "x + Second - rx \<le> y - ry" using x y by (simp add: algebra_simps)
    then show ?thesis unfolding Rx Ry using rx ry assms(2,3) by (auto simp: min_def)
  qed
qed

lemma Duration_Round_bounds:
  assumes "0 \<le> d" and "d \<le> maxDuration"
  shows "2 * d - Second < 2 * Duration_Round d Second" and "2 * Duration_Round d Second \<le> 2 * d + Second"
proof -
  have S: "Second = 1000000000" by (simp add: Second_def)
  have r: "0 \<le> d mod Second" "d mod Second < Second" by (simp_all add: S)
  show "2 * d - Second < 2 * Duration_Round d Second"
    unfolding Duration_Round_nonneg [OF assms(1)] using r assms(2) by (auto simp: min_def)
  show "2 * Duration_Round d Second \<le> 2 * d + Second"
    unfolding Duration_Round_nonneg [OF assms(1)] using r assms(2) by (auto simp: min_def)
qed

lemma Duration_Round_strict:
  assumes "0 \<le> x" and "x + Second \<le> y" and "y \<le> maxDuration"
  shows "Duration_Round x Second < Duration_Round y Second"
proof -
  have S: "Second = 1000000000" by (simp add: Second_def)
  have "x \<le> maxDuration" using assms by (simp add: S)
  from Duration_Round_bounds(2) [OF assms(1) this]
  have a: "2 * Duration_Round x Second \<le> 2 * x + Second" .
  have "0 \<le> y" using assms by (simp add: S)
  from Duration_Round_bounds(1) [OF this assms(3)]
  have b: "2 * y - Second < 2 * Duration_Round y Second" .
  show ?thesis using a b assms(2) by linarith
qed

lemma Duration_Round_multiple:
  assumes "0 \<le> d" and "d + Second \<le> maxDuration"
  shows "Duration_Round d Second mod Second = 0"
proof -
  have S: "Second = 1000000000" by (simp add: Second_def)
  have r: "0 \<le> d mod Second" "d mod Second < Second" by (simp_all add: S)
  have a: "(d - d mod Second) mod Second = 0" by (simp add: minus_mod_eq_mult_div)
  have "d + Second - d mod Second = (d - d mod Second) + Second" by simp
  then have b: "(d + Second - d mod Second) mod Second = 0" using a by (metis mod_add_self2)
  have c: "d + Second - d mod Second \<le> maxDuration" using assms r by linarith
  show ?thesis
    unfolding Duration_Round_nonneg [OF assms(1)] using a b c by (simp add: min_def)
qed

section \<open>Facts about the middleware\<close>

lemma Split_not_Nil: "Split s c \<noteq> []"
  by (induction s) (auto split: list.splits)

lemma getClientIPFromRequest_total: "\<exists>ip. getClientIPFromRequest pc r = Inr ip"
proof -
  have "0 < length (Split s c)" for s c
    using Split_not_Nil [of s c] by simp
  then show ?thesis
    by (auto simp: getClientIPFromRequest_def index_def Let_def split: sum.splits prod.splits)
qed

lemma GetWithTTL_skip:
  "skipTTLExtension c \<Longrightarrow>
   GetWithTTL c now key =
     (if present c now key then Inr (remainingTTL c now key) else Inl ErrNotFound, c)"
  by (simp add: GetWithTTL_def present_def remainingTTL_def split: option.splits)

lemma limitByKey_skip:
  "skipTTLExtension (cache l) \<Longrightarrow>
   limitByKey now key (l, w, tr) =
     (if present (cache l) now key
      then (True, (l, renderJSON w \<lparr>Message = rejectionMessage (remainingTTL (cache l) now key)\<rparr>
                         StatusTooManyRequests,
                   tr @ [Cache_GetWithTTL key,
                         RenderJSON (rejectionMessage (remainingTTL (cache l) now key)) StatusTooManyRequests]))
      else (False, (l, w, tr @ [Cache_GetWithTTL key])))"
  by (simp add: limitByKey_def GetWithTTL_skip rejectionMessage_def Let_def)

lemma mutex_update_same: "\<not> mutex l \<Longrightarrow> l\<lparr>mutex := False\<rparr> = l"
  by (cases l) simp

lemma ServeHTTP_skip:
  assumes "skipTTLExtension (cache l)" and "\<not> mutex l"
    and "readAddress r = Inr address"
    and "getClientIPFromRequest (proxyCount l) r = Inr clientIP"
    and "0 < ttl l"
  shows "ServeHTTP readAddress now next r (l, w, tr) = Inr
     (if present (cache l) (now 0) address then
        (l, renderJSON w \<lparr>Message = rejectionMessage (remainingTTL (cache l) (now 0) address)\<rparr>
              StatusTooManyRequests,
         tr @ [Mutex_Lock, Cache_GetWithTTL address,
               RenderJSON (rejectionMessage (remainingTTL (cache l) (now 0) address)) StatusTooManyRequests,
               Mutex_Unlock])
      else if present (cache l) (now 1) clientIP then
        (l, renderJSON w \<lparr>Message = rejectionMessage (remainingTTL (cache l) (now 1) clientIP)\<rparr>
              StatusTooManyRequests,
         tr @ [Mutex_Lock, Cache_GetWithTTL address, Cache_GetWithTTL clientIP,
               RenderJSON (rejectionMessage (remainingTTL (cache l) (now 1) clientIP)) StatusTooManyRequests,
               Mutex_Unlock])
      else if Status (next r w) \<noteq> StatusOK then
        (l\<lparr>cache := Remove (Remove (SetWithTTL (SetWithTTL (cache l) (now 2) address (ttl l))
                                (now 3) clientIP (ttl l)) address) clientIP\<rparr>,
         next r w,
         tr @ [Mutex_Lock, Cache_GetWithTTL address, Cache_GetWithTTL clientIP,
               Cache_SetWithTTL address (ttl l), Cache_SetWithTTL clientIP (ttl l), Mutex_Unlock,
               Next_ServeHTTP, Cache_Remove address, Cache_Remove clientIP])
      else
        (l\<lparr>cache := SetWithTTL (SetWithTTL (cache l) (now 2) address (ttl l))
                                (now 3) clientIP (ttl l)\<rparr>,
         next r w,
         tr @ [Mutex_Lock, Cache_GetWithTTL address, Cache_GetWithTTL clientIP,
               Cache_SetWithTTL address (ttl l), Cache_SetWithTTL clientIP (ttl l), Mutex_Unlock,
               Next_ServeHTTP, Log_Info address clientIP]))"
  using assms
  by (simp add: ServeHTTP_def limitByKey_skip Let_def mutex_update_same)

lemma item_update_both:
  "(it::item)\<lparr>item_ttl := d, expireAt := e\<rparr> = \<lparr>item_ttl = d, expireAt = e\<rparr>"
  by (cases it) simp

lemma SetWithTTL_items:
  assumes "0 < d"
  shows "items (SetWithTTL c now key d) = (items c)(key \<mapsto> \<lparr>item_ttl = d, expireAt = now + d\<rparr>)"
    and "skipTTLExtension (SetWithTTL c now key d) = skipTTLExtension c"
  using assms by (simp_all add: SetWithTTL_def touch_def Let_def item_update_both split: option.splits)

lemma Remove_items:
  "items (Remove c key) = (items c)(key := None)"
  "skipTTLExtension (Remove c key) = skipTTLExtension c"
  by (simp_all add: Remove_def)

lemma NewLimiter_ok: "d \<le> maxDuration \<Longrightarrow> limiter_ok (NewLimiter pc d)"
  by (simp add: limiter_ok_def NewLimiter_def NewCache_def SkipTTLExtensionOnHit_def Let_def)

lemma ServeHTTP_ok:
  assumes ok: "limiter_ok l"
    and run: "ServeHTTP readAddress now next r (l, w, tr) = Inr (l', w', tr')"
  shows "limiter_ok l'"
proof (cases "readAddress r")
  case (Inl err)
  with run have "l' = l" by (cases err) (simp_all add: ServeHTTP_def)
  with ok show ?thesis by simp
next
  case (Inr address)
  show ?thesis
  proof (cases "ttl l \<le> 0")
    case True
    with run Inr have "l' = l" by (simp add: ServeHTTP_def)
    with ok show ?thesis by simp
  next
    case False
    then have pos: "0 < ttl l" by simp
    obtain clientIP where ip: "getClientIPFromRequest (proxyCount l) r = Inr clientIP"
      using getClientIPFromRequest_total by blast
    from ok have skip: "skipTTLExtension (cache l)" and free: "\<not> mutex l"
      by (simp_all add: limiter_ok_def)
    let ?c = "SetWithTTL (SetWithTTL (cache l) (now 2) address (ttl l)) (now 3) clientIP (ttl l)"
    have eq: "ServeHTTP readAddress now next r (l, w, tr) = Inr
     (if present (cache l) (now 0) address then
        (l, renderJSON w \<lparr>Message = rejectionMessage (remainingTTL (cache l) (now 0) address)\<rparr>
              StatusTooManyRequests,
         tr @ [Mutex_Lock, Cache_GetWithTTL address,
               RenderJSON (rejectionMessage (remainingTTL (cache l) (now 0) address)) StatusTooManyRequests,
               Mutex_Unlock])
      else if present (cache l) (now 1) clientIP then
        (l, renderJSON w \<lparr>Message = rejectionMessage (remainingTTL (cache l) (now 1) clientIP)\<rparr>
              StatusTooManyRequests,
         tr @ [Mutex_Lock, Cache_GetWithTTL address, Cache_GetWithTTL clientIP,
               RenderJSON (rejectionMessage (remainingTTL (cache l) (now 1) clientIP)) StatusTooManyRequests,
               Mutex_Unlock])
      else if Status (next r w) \<noteq> StatusOK then
        (l\<lparr>cache := Remove (Remove ?c address) clientIP\<rparr>,
         next r w,
         tr @ [Mutex_Lock, Cache_GetWithTTL address, Cache_GetWithTTL clientIP,
               Cache_SetWithTTL address (ttl l), Cache_SetWithTTL clientIP (ttl l), Mutex_Unlock,
               Next_ServeHTTP, Cache_Remove address, Cache_Remove clientIP])
      else
        (l\<lparr>cache := ?c\<rparr>,
         next r w,
         tr @ [Mutex_Lock, Cache_GetWithTTL address, Cache_GetWithTTL clientIP,
               Cache_SetWithTTL address (ttl l), Cache_SetWithTTL clientIP (ttl l), Mutex_Unlock,
               Next_ServeHTTP, Log_Info address clientIP]))"
      by (rule ServeHTTP_skip [of l readAddress r address clientIP, OF skip free Inr ip pos])
    from run eq
    have "l' = l \<or> l' = l\<lparr>cache := Remove (Remove ?c address) clientIP\<rparr> \<or> l' = l\<lparr>cache := ?c\<rparr>"
      by (auto split: if_splits)
    then show ?thesis
      using ok pos
      by (auto simp: limiter_ok_def SetWithTTL_items Remove_items split: if_splits)
  qed
qed

lemma reachable_ok: "reachable l \<Longrightarrow> limiter_ok l"
  by (induction rule: reachable.induct) (auto intro: NewLimiter_ok ServeHTTP_ok)

lemma getItem_eq:
  "getItem c now key = (case items c key of None \<Rightarrow> None | Some it \<Rightarrow> if expired it now then None else Some it)"
  by (simp add: getItem_def)

lemma present_iff:
  "present c now key = (case items c key of None \<Rightarrow> False | Some it \<Rightarrow> \<not> expired it now)"
  by (simp add: present_def getItem_def split: option.splits)

lemma present_entry:
  "items c key = Some \<lparr>item_ttl = d, expireAt = e\<rparr> \<Longrightarrow> 0 < d \<Longrightarrow> present c now key = (now \<le> e)"
  by (auto simp: present_iff expired_def)

lemma shp_plain:
  "SplitHostPort ''10.0.0.7:5000'' = Inr (''10.0.0.7'', ''5000'')"
  by (simp add: SplitHostPort_def IndexByte_def LastIndexByte_def Let_def)

lemma clientIP_plain:
  "getClientIPFromRequest 0 \<lparr>Header = Map.empty, RemoteAddr = ''10.0.0.7:5000''\<rparr> = Inr ''10.0.0.7''"
  by (simp add: getClientIPFromRequest_def shp_plain)

lemma NewLimiter_fields:
  "ttl (NewLimiter pc d) = d"
  "proxyCount (NewLimiter pc d) = pc"
  "mutex (NewLimiter pc d) = False"
  "items (cache (NewLimiter pc d)) = Map.empty"
  "skipTTLExtension (cache (NewLimiter pc d))"
  by (simp_all add: NewLimiter_def NewCache_def SkipTTLExtensionOnHit_def Let_def)

lemma NewLimiter_absent: "\<not> present (cache (NewLimiter pc d)) t k"
  by (simp add: present_iff NewLimiter_fields)

lemma reachable_example: "reachable (NewLimiter 0 (60 * Second))"
  by (rule reachable.new) (simp_all add: Second_def minDuration_def maxDuration_def)

lemma ServeHTTP_cases:
  assumes ok: "limiter_ok l"
    and rd: "readAddress r = Inr address"
    and ip: "getClientIPFromRequest (proxyCount l) r = Inr clientIP"
    and pos: "0 < ttl l"
    and run: "ServeHTTP readAddress now next r (l, w, tr) = Inr (l', w', tr @ calls)"
  shows "(rejected calls \<and> \<not> admitted calls \<and> l' = l
            \<and> (present (cache l) (now 0) address \<or> present (cache l) (now 1) clientIP))
         \<or> (admitted calls \<and> \<not> rejected calls \<and> w' = next r w
            \<and> \<not> present (cache l) (now 0) address \<and> \<not> present (cache l) (now 1) clientIP
            \<and> l' = (if Status (next r w) \<noteq> StatusOK
                     then l\<lparr>cache := Remove (Remove (SetWithTTL (SetWithTTL (cache l) (now 2) address (ttl l))
                                              (now 3) clientIP (ttl l)) address) clientIP\<rparr>
                     else l\<lparr>cache := SetWithTTL (SetWithTTL (cache l) (now 2) address (ttl l))
                                              (now 3) clientIP (ttl l)\<rparr>))"
proof -
  from ok have skip: "skipTTLExtension (cache l)" and free: "\<not> mutex l"
    by (simp_all add: limiter_ok_def)
  from run ServeHTTP_skip [of l readAddress r address clientIP now "next" w tr, OF skip free rd ip pos]
  show ?thesis
    by (auto simp: rejected_def admitted_def StatusTooManyRequests_def split: if_splits)
qed

lemma example_clientIP: "getClientIPFromRequest 0 example_request = Inr ''10.0.0.7''"
  by (simp add: example_request_def clientIP_plain)

lemma example_admission:
  assumes "0 < d" and "d \<le> maxDuration"
  shows "ServeHTTP (address_found ''0xabc'') (clock_from 0) (respond 200) example_request
           (NewLimiter 0 d, newResponseWriter, [])
         = Inr (admitted_limiter d, \<lparr>Status = 200, Body = []\<rparr>,
                [Mutex_Lock, Cache_GetWithTTL ''0xabc'', Cache_GetWithTTL ''10.0.0.7'',
                 Cache_SetWithTTL ''0xabc'' d, Cache_SetWithTTL ''10.0.0.7'' d,
                 Mutex_Unlock, Next_ServeHTTP, Log_Info ''0xabc'' ''10.0.0.7''])"
proof -
  have rd: "address_found ''0xabc'' example_request = Inr ''0xabc''"
    by (simp add: address_found_def)
  have ip: "getClientIPFromRequest (proxyCount (NewLimiter 0 d)) example_request = Inr ''10.0.0.7''"
    by (simp add: NewLimiter_fields example_clientIP)
  have pos: "0 < ttl (NewLimiter 0 d)" using assms by (simp add: NewLimiter_fields)
  from ServeHTTP_skip [of "NewLimiter 0 d" "address_found ''0xabc''" example_request "''0xabc''"
         "''10.0.0.7''" "clock_from 0" "respond 200" newResponseWriter "[]",
         OF NewLimiter_fields(5) _ rd ip pos]
  show ?thesis
    by (simp add: NewLimiter_absent NewLimiter_fields respond_def newResponseWriter_def
          clock_from_def StatusOK_def admitted_limiter_def)
qed

lemma admitted_limiter_reachable:
  assumes "0 < d" and "d \<le> maxDuration"
  shows "reachable (admitted_limiter d)"
proof -
  have "minDuration \<le> d" using assms by (simp add: minDuration_def)
  then have "reachable (NewLimiter 0 d)" using assms(2) by (rule reachable.new)
  then show ?thesis using example_admission [OF assms] by (rule reachable.serve)
qed

lemma admitted_limiter_fields:
  assumes "0 < d"
  shows "ttl (admitted_limiter d) = d"
    and "proxyCount (admitted_limiter d) = 0"
    and "items (cache (admitted_limiter d)) =
           [''0xabc'' \<mapsto> \<lparr>item_ttl = d, expireAt = 2 + d\<rparr>,
            ''10.0.0.7'' \<mapsto> \<lparr>item_ttl = d, expireAt = 3 + d\<rparr>]"
  using assms by (simp_all add: admitted_limiter_def NewLimiter_fields SetWithTTL_items)

lemma remainingTTL_entry:
  "items c key = Some \<lparr>item_ttl = d, expireAt = e\<rparr> \<Longrightarrow> 0 < d \<Longrightarrow> now \<le> e \<Longrightarrow>
   remainingTTL c now key = min (e - now) maxDuration"
  by (auto simp: remainingTTL_def getItem_def expired_def Until_def Time_Sub_def
        maxDuration_def minDuration_def)

lemmas duration_eval =
  Duration_String_def Duration_Round_def go_rem_def lessThanHalf_def Second_def maxDuration_def
  fmtFrac_def fmtInt_def fmtFrac_loop_numeral fmtInt_loop_0 fmtInt_loop_pos digit_char_def Let_def

lemma example_rejection_60:
  "ServeHTTP (address_found ''0xabc'') (clock_from 1000000000) (respond 200) example_request
      (admitted_limiter (60 * Second), newResponseWriter, [])
   = Inr (admitted_limiter (60 * Second),
          \<lparr>Status = 429,
             Body = [\<lparr>Message = ''You have exceeded the rate limit. Please wait 59s before you try again''\<rparr>]\<rparr>,
          [Mutex_Lock, Cache_GetWithTTL ''0xabc'',
           RenderJSON ''You have exceeded the rate limit. Please wait 59s before you try again'' 429,
           Mutex_Unlock])"
proof -
  have d: "0 < 60 * Second" "60 * Second \<le> maxDuration"
    by (simp_all add: Second_def maxDuration_def)
  have ok: "limiter_ok (admitted_limiter (60 * Second))"
    by (rule reachable_ok [OF admitted_limiter_reachable [OF d]])
  then have skip: "skipTTLExtension (cache (admitted_limiter (60 * Second)))"
    and free: "\<not> mutex (admitted_limiter (60 * Second))"
    by (simp_all add: limiter_ok_def)
  have rd: "address_found ''0xabc'' example_request = Inr ''0xabc''"
    by (simp add: address_found_def)
  have ip: "getClientIPFromRequest (proxyCount (admitted_limiter (60 * Second))) example_request
              = Inr ''10.0.0.7''"
    by (simp add: admitted_limiter_fields [OF d(1)] example_clientIP)
  have pos: "0 < ttl (admitted_limiter (60 * Second))"
    using d(1) by (simp add: admitted_limiter_fields [OF d(1)])
  have it: "items (cache (admitted_limiter (60 * Second))) ''0xabc''
              = Some \<lparr>item_ttl = 60 * Second, expireAt = 2 + 60 * Second\<rparr>"
    by (simp add: admitted_limiter_fields [OF d(1)])
  have pr: "present (cache (admitted_limiter (60 * Second))) (clock_from 1000000000 0) ''0xabc''"
    using present_entry [OF it d(1), of "clock_from 1000000000 0"]
    by (simp add: clock_from_def Second_def)
  have rem: "remainingTTL (cache (admitted_limiter (60 * Second))) (clock_from 1000000000 0) ''0xabc''
               = 59000000002"
    using remainingTTL_entry [OF it d(1), of "clock_from 1000000000 0"]
    by (simp add: clock_from_def Second_def maxDuration_def)
  have msg: "rejectionMessage 59000000002
               = ''You have exceeded the rate limit. Please wait 59s before you try again''"
    by (simp add: rejectionMessage_def duration_eval)
  from ServeHTTP_skip [of "admitted_limiter (60 * Second)" "address_found ''0xabc''" example_request
         "''0xabc''" "''10.0.0.7''" "clock_from 1000000000" "respond 200" newResponseWriter "[]",
         OF skip free rd ip pos]
  show ?thesis
    by (simp add: pr rem msg renderJSON_def newResponseWriter_def StatusTooManyRequests_def)
qed

lemma Duration_Round_seconds:
  assumes "0 \<le> d" and "d + Second \<le> maxDuration"
  shows "Duration_Round d Second = int (nat ((2 * d + Second) div (2 * Second))) * Second"
proof -
  define q r where "q = d div Second" and "r = d mod Second"
  have S: "Second = 1000000000" by (simp add: Second_def)
  have d: "d = Second * q + r" by (simp add: q_def r_def)
  have r: "0 \<le> r" "r < Second" by (simp_all add: r_def S)
  have q: "0 \<le> q" using assms(1) by (simp add: q_def S pos_imp_zdiv_nonneg_iff)
  have up: "d + Second - r \<le> maxDuration" using assms(2) r by linarith
  show ?thesis
  proof (cases "2 * r < Second")
    case True
    have "2 * d + Second = (2 * Second) * q + (2 * r + Second)" using d by (simp add: algebra_simps)
    moreover have "0 \<le> 2 * r + Second" "2 * r + Second < 2 * Second" using r True by simp_all
    ultimately have "(2 * d + Second) div (2 * Second) = q"
      by (metis int_div_pos_eq)
    moreover have "Duration_Round d Second = d - r"
      using Duration_Round_nonneg [OF assms(1)] True by (simp add: r_def)
    ultimately show ?thesis using d q by (simp add: algebra_simps)
  next
    case False
    have "2 * d + Second = (2 * Second) * (q + 1) + (2 * r - Second)"
      using d by (simp add: algebra_simps)
    moreover have "0 \<le> 2 * r - Second" "2 * r - Second < 2 * Second" using r False by simp_all
    ultimately have "(2 * d + Second) div (2 * Second) = q + 1"
      by (metis int_div_pos_eq)
    moreover have "Duration_Round d Second = d + Second - r"
      using Duration_Round_nonneg [OF assms(1)] False up by (simp add: r_def min_def)
    ultimately show ?thesis using d q by (simp add: algebra_simps)
  qed
qed

lemma rejectionMessage_seconds:
  assumes "0 \<le> d" and "d + Second \<le> maxDuration"
  shows "rejectionMessage d =
           ''You have exceeded the rate limit. Please wait ''
             @ hms (nat ((2 * d + Second) div (2 * Second))) @ '' before you try again''"
  unfolding rejectionMessage_def Duration_Round_seconds [OF assms] Duration_String_seconds ..

lemma remainingTTL_nonneg: "0 \<le> remainingTTL c now key"
  by (simp add: remainingTTL_def split: option.splits)

lemma example_rejection:
  assumes d: "0 < d" "d \<le> maxDuration" and t: "2 \<le> t" "t \<le> 2 + d"
  shows "ServeHTTP (address_found ''0xabc'') (clock_from t) next example_request
           (admitted_limiter d, w, tr)
         = Inr (admitted_limiter d,
                renderJSON w \<lparr>Message = rejectionMessage (2 + d - t)\<rparr> 429,
                tr @ [Mutex_Lock, Cache_GetWithTTL ''0xabc'',
                      RenderJSON (rejectionMessage (2 + d - t)) 429, Mutex_Unlock])"
proof -
  have ok: "limiter_ok (admitted_limiter d)"
    by (rule reachable_ok [OF admitted_limiter_reachable [OF d]])
  then have skip: "skipTTLExtension (cache (admitted_limiter d))"
    and free: "\<not> mutex (admitted_limiter d)"
    by (simp_all add: limiter_ok_def)
  have rd: "address_found ''0xabc'' example_request = Inr ''0xabc''"
    by (simp add: address_found_def)
  have ip: "getClientIPFromRequest (proxyCount (admitted_limiter d)) example_request = Inr ''10.0.0.7''"
    by (simp add: admitted_limiter_fields [OF d(1)] example_clientIP)
  have pos: "0 < ttl (admitted_limiter d)"
    using d(1) by (simp add: admitted_limiter_fields [OF d(1)])
  have it: "items (cache (admitted_limiter d)) ''0xabc'' = Some \<lparr>item_ttl = d, expireAt = 2 + d\<rparr>"
    by (simp add: admitted_limiter_fields [OF d(1)])
  have pr: "present (cache (admitted_limiter d)) (clock_from t 0) ''0xabc''"
    using present_entry [OF it d(1), of "clock_from t 0"] t by (simp add: clock_from_def)
  have rem: "remainingTTL (cache (admitted_limiter d)) (clock_from t 0) ''0xabc'' = 2 + d - t"
    using remainingTTL_entry [OF it d(1), of "clock_from t 0"] t d(2)
    by (simp add: clock_from_def min_def)
  from ServeHTTP_skip [of "admitted_limiter d" "address_found ''0xabc''" example_request
         "''0xabc''" "''10.0.0.7''" "clock_from t" "next" w tr, OF skip free rd ip pos]
  show ?thesis
    by (simp add: pr rem StatusTooManyRequests_def)
qed

lemmas decimal_eval = decimal_small decimal_large digit_char_def

lemma finalized_state:
  assumes ok: "limiter_ok l"
    and rd: "readAddress r = Inr address"
    and ip: "getClientIPFromRequest (proxyCount l) r = Inr clientIP"
    and pos: "0 < ttl l"
    and run: "ServeHTTP readAddress now next r (l, w, tr) = Inr (l1, w1, tr @ calls)"
    and fin: "Log_Info address clientIP \<in> set calls"
  shows "l1 = l\<lparr>cache := SetWithTTL (SetWithTTL (cache l) (now 2) address (ttl l))
                            (now 3) clientIP (ttl l)\<rparr>"
proof -
  from ok have skip: "skipTTLExtension (cache l)" and free: "\<not> mutex l"
    by (simp_all add: limiter_ok_def)
  from run fin ServeHTTP_skip [of l readAddress r address clientIP now "next" w tr, OF skip free rd ip pos]
  show ?thesis
    by (auto split: if_splits)
qed

lemma window_entry:
  assumes it: "items c key = Some \<lparr>item_ttl = d, expireAt = e\<rparr>"
    and d: "0 < d" "d \<le> maxDuration"
    and t: "e - d \<le> t1" "t1 \<le> t2" "t2 \<le> e"
  shows "present c t1 key" and "present c t2 key"
    and "remainingTTL c t1 key = e - t1" and "remainingTTL c t2 key = e - t2"
    and "Duration_Round (remainingTTL c t2 key) Second \<le> Duration_Round (remainingTTL c t1 key) Second"
    and "t1 + Second \<le> t2 \<longrightarrow>
         Duration_Round (remainingTTL c t2 key) Second < Duration_Round (remainingTTL c t1 key) Second"
proof -
  show p1: "present c t1 key" using present_entry [OF it d(1), of t1] t by simp
  show p2: "present c t2 key" using present_entry [OF it d(1), of t2] t by simp
  show r1: "remainingTTL c t1 key = e - t1"
    using remainingTTL_entry [OF it d(1), of t1] t d by (simp add: min_def)
  show r2: "remainingTTL c t2 key = e - t2"
    using remainingTTL_entry [OF it d(1), of t2] t d by (simp add: min_def)
  have x: "0 \<le> e - t2" and xy: "e - t2 \<le> e - t1" and y: "e - t1 \<le> maxDuration"
    using t d by simp_all
  show "Duration_Round (remainingTTL c t2 key) Second \<le> Duration_Round (remainingTTL c t1 key) Second"
    unfolding r1 r2 by (rule Duration_Round_mono [OF x xy y])
  show "t1 + Second \<le> t2 \<longrightarrow>
         Duration_Round (remainingTTL c t2 key) Second < Duration_Round (remainingTTL c t1 key) Second"
  proof
    assume "t1 + Second \<le> t2"
    then have "e - t2 + Second \<le> e - t1" by simp
    from Duration_Round_strict [OF x this y] show
      "Duration_Round (remainingTTL c t2 key) Second < Duration_Round (remainingTTL c t1 key) Second"
      unfolding r1 r2 .
  qed
qed

subsection \<open>Splitting and trimming\<close>

lemma IndexByte_absent: "c \<notin> set s \<Longrightarrow> IndexByte s c = - 1"
  by (simp add: IndexByte_def)

lemma LastIndexByte_absent: "c \<notin> set s \<Longrightarrow> LastIndexByte s c = - 1"
  by (simp add: LastIndexByte_def)

lemma takeWhile_absent: "c \<notin> set a \<Longrightarrow> takeWhile (\<lambda>x. x \<noteq> c) a = a"
  by (induction a) auto

lemma IndexByte_first: "c \<notin> set a \<Longrightarrow> IndexByte (a @ c # b) c = int (length a)"
  by (simp add: IndexByte_def takeWhile_tail takeWhile_absent)

lemma LastIndexByte_last: "c \<notin> set b \<Longrightarrow> LastIndexByte (a @ c # b) c = int (length a)"
proof -
  assume "c \<notin> set b"
  then have "takeWhile (\<lambda>x. x \<noteq> c) (rev b @ c # rev a) = rev b"
    by (simp add: takeWhile_tail takeWhile_absent)
  then show ?thesis by (simp add: LastIndexByte_def)
qed

lemma SplitHostPort_plain:
  assumes "CHR '':'' \<notin> set host" "CHR ''['' \<notin> set host" "CHR '']'' \<notin> set host"
    and "CHR '':'' \<notin> set port" "CHR ''['' \<notin> set port" "CHR '']'' \<notin> set port"
  shows "SplitHostPort (host @ '':'' @ port) = Inr (host, port)"
proof -
  have i: "LastIndexByte (host @ CHR '':'' # port) CHR '':'' = int (length host)"
    by (rule LastIndexByte_last [OF assms(4)])
  have hd: "hd (host @ CHR '':'' # port) \<noteq> CHR ''[''"
    using assms(2) by (cases host) auto
  have a: "IndexByte host CHR '':'' = - 1" by (rule IndexByte_absent [OF assms(1)])
  have b: "IndexByte (host @ CHR '':'' # port) CHR ''['' = - 1"
    using assms by (simp add: IndexByte_absent)
  have c: "IndexByte (host @ CHR '':'' # port) CHR '']'' = - 1"
    using assms by (simp add: IndexByte_absent)
  show ?thesis
    using hd by (simp add: SplitHostPort_def Let_def i a b c)
qed

lemma SplitHostPort_bracketed:
  assumes "CHR ''['' \<notin> set host" "CHR '']'' \<notin> set host"
    and "CHR '':'' \<notin> set port" "CHR ''['' \<notin> set port" "CHR '']'' \<notin> set port"
  shows "SplitHostPort (''['' @ host @ '']:'' @ port) = Inr (host, port)"
proof -
  let ?s = "CHR ''['' # host @ CHR '']'' # CHR '':'' # port"
  have "LastIndexByte ((CHR ''['' # host @ [CHR '']'']) @ CHR '':'' # port) CHR '':''
          = int (length (CHR ''['' # host @ [CHR '']'']))"
    by (rule LastIndexByte_last [OF assms(3)])
  then have i: "LastIndexByte ?s CHR '':'' = int (length host) + 2" by simp
  have "IndexByte ((CHR ''['' # host) @ CHR '']'' # CHR '':'' # port) CHR '']''
          = int (length (CHR ''['' # host))"
    by (rule IndexByte_first) (use assms(2) in simp)
  then have e: "IndexByte ?s CHR '']'' = int (length host) + 1" by simp
  have b: "IndexByte (host @ CHR '']'' # CHR '':'' # port) CHR ''['' = - 1"
    using assms by (simp add: IndexByte_absent)
  have c: "IndexByte (CHR '':'' # port) CHR '']'' = - 1"
    using assms by (simp add: IndexByte_absent)
  have n: "nat (int (length host) + 1) = Suc (length host)" by simp
  show ?thesis
    by (simp add: SplitHostPort_def Let_def i e b c n nat_add_distrib)
qed

lemma SplitHostPort_no_colon:
  "CHR '':'' \<notin> set s \<Longrightarrow> SplitHostPort s = Inl (AddrError ''missing port in address'' s)"
  by (simp add: SplitHostPort_def Let_def LastIndexByte_absent)

lemma Split_no_sep: "p \<in> set (Split s c) \<Longrightarrow> c \<notin> set p"
  by (induction s arbitrary: p) (auto split: if_splits list.splits)

lemma Split_join: "concat (map (\<lambda>p. p @ [c]) (Split s c)) = s @ [c]"
  by (induction s) (auto split: list.splits simp: Split_not_Nil)

lemma Split_length: "length (Split s c) = Suc (length (filter (\<lambda>x. x = c) s))"
  by (induction s) (auto split: list.splits simp: Split_not_Nil)

lemma TrimLeftSpace_stop: "leadingSpace s = 0 \<or> s = [] \<Longrightarrow> TrimLeftSpace s = s"
  by (subst TrimLeftSpace.simps) simp

lemma TrimLeftSpace_step:
  "\<not> (leadingSpace s = 0 \<or> s = []) \<Longrightarrow> TrimLeftSpace s = TrimLeftSpace (drop (leadingSpace s) s)"
  by (subst TrimLeftSpace.simps) simp

lemma TrimRightSpace_stop: "trailingSpace s = 0 \<or> s = [] \<Longrightarrow> TrimRightSpace s = s"
  by (subst TrimRightSpace.simps) simp

lemma TrimRightSpace_step:
  "\<not> (trailingSpace s = 0 \<or> s = []) \<Longrightarrow>
   TrimRightSpace s = TrimRightSpace (take (length s - trailingSpace s) s)"
  by (subst TrimRightSpace.simps) simp

lemmas trim_eval =
  TrimSpace_def TrimLeftSpace_stop TrimLeftSpace_step TrimRightSpace_stop TrimRightSpace_step
  leadingSpace_def trailingSpace_def asciiSpace_def unicodeSpaces_def

lemma forwarded_example_1:
  "getClientIPFromRequest 2
     \<lparr>Header = [''X-Forwarded-For'' \<mapsto> [''1.2.3.4, 10.0.0.1, 10.0.0.2'']], RemoteAddr = ''9.9.9.9:80''\<rparr>
   = Inr ''10.0.0.1''"
  by (simp add: getClientIPFromRequest_def Header_Get_def index_def trim_eval Let_def)

lemma forwarded_example_2:
  "getClientIPFromRequest 5
     \<lparr>Header = [''X-Forwarded-For'' \<mapsto> [''1.2.3.4'']], RemoteAddr = ''9.9.9.9:80''\<rparr>
   = Inr ''1.2.3.4''"
  by (simp add: getClientIPFromRequest_def Header_Get_def index_def trim_eval Let_def)

section \<open>Properties of the admission filter\<close>

subsection \<open>Address extraction failures\<close>

text \<open>
  Claim C9. When the address cannot be read from the request, the filter answers with the
  status and message of the malformed-request error, or with status 500 and the standard
  text of that status for any other error. In both cases the only call it makes is the
  rendering of that answer: the mutex and the store are not touched, the limiter is
  unchanged, and the next handler is not invoked.
\<close>

theorem address_error_surfaced:
  assumes "readAddress r = Inl err"
  shows "ServeHTTP readAddress now next r (l, w, tr) =
           Inr (case err of
                  malformedRequest status message \<Rightarrow>
                    (l, renderJSON w \<lparr>Message = message\<rparr> status,
                     tr @ [RenderJSON message status])
                | otherError \<Rightarrow>
                    (l, renderJSON w \<lparr>Message = ''Internal Server Error''\<rparr> 500,
                     tr @ [RenderJSON ''Internal Server Error'' 500]))"
  using assms
  by (cases err) (simp_all add: ServeHTTP_def StatusText_def StatusInternalServerError_def)

theorem address_error_surfaced_witness:
  "ServeHTTP (address_failed (malformedRequest 400 ''bad address'')) (clock_from 0) (respond 200)
       \<lparr>Header = Map.empty, RemoteAddr = ''10.0.0.7:5000''\<rparr>
       (NewLimiter 0 (60 * Second), newResponseWriter, [])
     = Inr (NewLimiter 0 (60 * Second),
            \<lparr>Status = 400, Body = [\<lparr>Message = ''bad address''\<rparr>]\<rparr>,
            [RenderJSON ''bad address'' 400])
   \<and> ServeHTTP (address_failed otherError) (clock_from 0) (respond 200)
       \<lparr>Header = Map.empty, RemoteAddr = ''10.0.0.7:5000''\<rparr>
       (NewLimiter 0 (60 * Second), newResponseWriter, [])
     = Inr (NewLimiter 0 (60 * Second),
            \<lparr>Status = 500, Body = [\<lparr>Message = ''Internal Server Error''\<rparr>]\<rparr>,
            [RenderJSON ''Internal Server Error'' 500])"
  using address_error_surfaced [of "address_failed (malformedRequest 400 ''bad address'')"
          "\<lparr>Header = Map.empty, RemoteAddr = ''10.0.0.7:5000''\<rparr>"
          "malformedRequest 400 ''bad address''" "clock_from 0" "respond 200"
          "NewLimiter 0 (60 * Second)" newResponseWriter "[]"]
        address_error_surfaced [of "address_failed otherError"
          "\<lparr>Header = Map.empty, RemoteAddr = ''10.0.0.7:5000''\<rparr>"
          otherError "clock_from 0" "respond 200"
          "NewLimiter 0 (60 * Second)" newResponseWriter "[]"]
  by (simp add: address_failed_def renderJSON_def newResponseWriter_def)

subsection \<open>Limiting disabled\<close>

text \<open>
  Claim C6. When the configured time to live is zero or negative, a request whose address
  was read is passed to the next handler whatever the store holds: the only call made is
  the one to the next handler, so the store is neither consulted nor modified, and the
  limiter is unchanged.
\<close>

theorem nonpositive_ttl_admits:
  assumes "readAddress r = Inr address" and "ttl l \<le> 0"
  shows "ServeHTTP readAddress now next r (l, w, tr) = Inr (l, next r w, tr @ [Next_ServeHTTP])"
  using assms by (simp add: ServeHTTP_def)

theorem nonpositive_ttl_admits_witness:
  "ServeHTTP (address_found ''0xabc'') (clock_from 0) (respond 200)
       \<lparr>Header = Map.empty, RemoteAddr = ''10.0.0.7:5000''\<rparr>
       (NewLimiter 0 0, newResponseWriter, [])
     = Inr (NewLimiter 0 0, \<lparr>Status = 200, Body = []\<rparr>, [Next_ServeHTTP])"
  using nonpositive_ttl_admits [of "address_found ''0xabc''"
          "\<lparr>Header = Map.empty, RemoteAddr = ''10.0.0.7:5000''\<rparr>" "''0xabc''"
          "NewLimiter 0 0" "clock_from 0" "respond 200" newResponseWriter "[]"]
  by (simp add: address_found_def NewLimiter_def respond_def newResponseWriter_def)

subsection \<open>The admission decision\<close>

text \<open>
  Claim C1. For a request whose address was read, served by a limiter with a positive
  time to live: the filter locks the mutex and looks the address key up first; if it is
  present it answers 429 with a message that carries that key's remaining time, rounded
  to the second, and makes no further lookup. Otherwise it looks the client-address key
  up; if that is present it answers 429 with that key's remaining time. Otherwise it sets
  the address key and then the client-address key with the configured time to live,
  unlocks and invokes the next handler. The calls are made in exactly this order.
\<close>

theorem admit_probe_order:
  assumes "reachable l"
    and "readAddress r = Inr address"
    and "getClientIPFromRequest (proxyCount l) r = Inr clientIP"
    and "0 < ttl l"
  shows "ServeHTTP readAddress now next r (l, w, tr) = Inr
     (if present (cache l) (now 0) address then
        (l, renderJSON w \<lparr>Message = rejectionMessage (remainingTTL (cache l) (now 0) address)\<rparr> 429,
         tr @ [Mutex_Lock, Cache_GetWithTTL address,
               RenderJSON (rejectionMessage (remainingTTL (cache l) (now 0) address)) 429,
               Mutex_Unlock])
      else if present (cache l) (now 1) clientIP then
        (l, renderJSON w \<lparr>Message = rejectionMessage (remainingTTL (cache l) (now 1) clientIP)\<rparr> 429,
         tr @ [Mutex_Lock, Cache_GetWithTTL address, Cache_GetWithTTL clientIP,
               RenderJSON (rejectionMessage (remainingTTL (cache l) (now 1) clientIP)) 429,
               Mutex_Unlock])
      else if Status (next r w) \<noteq> 200 then
        (l\<lparr>cache := Remove (Remove (SetWithTTL (SetWithTTL (cache l) (now 2) address (ttl l))
                                (now 3) clientIP (ttl l)) address) clientIP\<rparr>,
         next r w,
         tr @ [Mutex_Lock, Cache_GetWithTTL address, Cache_GetWithTTL clientIP,
               Cache_SetWithTTL address (ttl l), Cache_SetWithTTL clientIP (ttl l), Mutex_Unlock,
               Next_ServeHTTP, Cache_Remove address, Cache_Remove clientIP])
      else
        (l\<lparr>cache := SetWithTTL (SetWithTTL (cache l) (now 2) address (ttl l))
                                (now 3) clientIP (ttl l)\<rparr>,
         next r w,
         tr @ [Mutex_Lock, Cache_GetWithTTL address, Cache_GetWithTTL clientIP,
               Cache_SetWithTTL address (ttl l), Cache_SetWithTTL clientIP (ttl l), Mutex_Unlock,
               Next_ServeHTTP, Log_Info address clientIP]))"
proof -
  from reachable_ok [OF assms(1)] have "skipTTLExtension (cache l)" and "\<not> mutex l"
    by (simp_all add: limiter_ok_def)
  from ServeHTTP_skip [of l readAddress r address clientIP now "next" w tr, OF this assms(2-4)]
  show ?thesis by (simp add: StatusTooManyRequests_def StatusOK_def)
qed

theorem admit_probe_order_witness:
  "ServeHTTP (address_found ''0xabc'') (clock_from 0) (respond 200)
       \<lparr>Header = Map.empty, RemoteAddr = ''10.0.0.7:5000''\<rparr>
       (NewLimiter 0 (60 * Second), newResponseWriter, [])
     = Inr ((NewLimiter 0 (60 * Second))
              \<lparr>cache := SetWithTTL (SetWithTTL (cache (NewLimiter 0 (60 * Second))) 2 ''0xabc'' (60 * Second))
                         3 ''10.0.0.7'' (60 * Second)\<rparr>,
            \<lparr>Status = 200, Body = []\<rparr>,
            [Mutex_Lock, Cache_GetWithTTL ''0xabc'', Cache_GetWithTTL ''10.0.0.7'',
             Cache_SetWithTTL ''0xabc'' (60 * Second), Cache_SetWithTTL ''10.0.0.7'' (60 * Second),
             Mutex_Unlock, Next_ServeHTTP, Log_Info ''0xabc'' ''10.0.0.7''])"
proof -
  have ip: "getClientIPFromRequest (proxyCount (NewLimiter 0 (60 * Second)))
              \<lparr>Header = Map.empty, RemoteAddr = ''10.0.0.7:5000''\<rparr> = Inr ''10.0.0.7''"
    by (simp add: NewLimiter_fields clientIP_plain)
  have rd: "address_found ''0xabc'' \<lparr>Header = Map.empty, RemoteAddr = ''10.0.0.7:5000''\<rparr> = Inr ''0xabc''"
    by (simp add: address_found_def)
  have pos: "0 < ttl (NewLimiter 0 (60 * Second))"
    by (simp add: NewLimiter_fields Second_def)
  from admit_probe_order [of "NewLimiter 0 (60 * Second)" "address_found ''0xabc''"
         "\<lparr>Header = Map.empty, RemoteAddr = ''10.0.0.7:5000''\<rparr>" "''0xabc''" "''10.0.0.7''"
         "clock_from 0" "respond 200" newResponseWriter "[]", OF reachable_example rd ip pos]
  show ?thesis
    by (simp add: NewLimiter_absent NewLimiter_fields respond_def newResponseWriter_def
          clock_from_def StatusOK_def)
qed

subsection \<open>Rejections leave the store alone\<close>

text \<open>
  Claim C10. A request that is rejected leaves the limiter, and with it the store,
  exactly as it was: no entry is inserted or removed and no expiry changes.
\<close>

theorem rejection_leaves_store:
  assumes "reachable l"
    and "ServeHTTP readAddress now next r (l, w, tr) = Inr (l', w', tr @ calls)"
    and "rejected calls"
  shows "cache l' = cache l \<and> l' = l"
proof (cases "readAddress r")
  case (Inl err)
  with assms(2) show ?thesis by (cases err) (simp_all add: ServeHTTP_def)
next
  case (Inr address)
  show ?thesis
  proof (cases "ttl l \<le> 0")
    case True
    with assms(2) Inr show ?thesis by (simp add: ServeHTTP_def)
  next
    case False
    then have pos: "0 < ttl l" by simp
    obtain clientIP where ip: "getClientIPFromRequest (proxyCount l) r = Inr clientIP"
      using getClientIPFromRequest_total by blast
    from ServeHTTP_cases [OF reachable_ok [OF assms(1)] Inr ip pos assms(2)] assms(3)
    show ?thesis by auto
  qed
qed

theorem rejection_leaves_store_witness:
  "reachable (admitted_limiter (60 * Second))
   \<and> ServeHTTP (address_found ''0xabc'') (clock_from 1000000000) (respond 200) example_request
        (admitted_limiter (60 * Second), newResponseWriter, [])
      = Inr (admitted_limiter (60 * Second),
             \<lparr>Status = 429,
                Body = [\<lparr>Message = ''You have exceeded the rate limit. Please wait 59s before you try again''\<rparr>]\<rparr>,
             [] @ [Mutex_Lock, Cache_GetWithTTL ''0xabc'',
                   RenderJSON ''You have exceeded the rate limit. Please wait 59s before you try again'' 429,
                   Mutex_Unlock])
   \<and> rejected [Mutex_Lock, Cache_GetWithTTL ''0xabc'',
                RenderJSON ''You have exceeded the rate limit. Please wait 59s before you try again'' 429,
                Mutex_Unlock]
   \<and> cache (admitted_limiter (60 * Second)) = cache (admitted_limiter (60 * Second))"
proof -
  have d: "0 < 60 * Second" "60 * Second \<le> maxDuration"
    by (simp_all add: Second_def maxDuration_def)
  have reach: "reachable (admitted_limiter (60 * Second))"
    by (rule admitted_limiter_reachable [OF d])
  have run: "ServeHTTP (address_found ''0xabc'') (clock_from 1000000000) (respond 200) example_request
        (admitted_limiter (60 * Second), newResponseWriter, [])
      = Inr (admitted_limiter (60 * Second),
             \<lparr>Status = 429,
                Body = [\<lparr>Message = ''You have exceeded the rate limit. Please wait 59s before you try again''\<rparr>]\<rparr>,
             [] @ [Mutex_Lock, Cache_GetWithTTL ''0xabc'',
                   RenderJSON ''You have exceeded the rate limit. Please wait 59s before you try again'' 429,
                   Mutex_Unlock])"
    using example_rejection_60 by simp
  have rej: "rejected [Mutex_Lock, Cache_GetWithTTL ''0xabc'',
                RenderJSON ''You have exceeded the rate limit. Please wait 59s before you try again'' 429,
                Mutex_Unlock]"
    by (simp add: rejected_def StatusTooManyRequests_def)
  from rejection_leaves_store [OF reach run rej] reach run rej show ?thesis by simp
qed

subsection \<open>Rollback when the next handler fails\<close>

text \<open>
  Claim C2. For an admitted request: when the next handler has completed and the status it
  left is not 200, the entries of both keys are removed, so that a following request with
  the same address and the same client address is admitted again, at whatever time it
  comes. When the status is 200 both entries stay, with the expiry they were given when
  they were set, and are seen by lookups up to that instant and not after it.
\<close>

theorem rollback_on_failure:
  assumes "reachable l"
    and "readAddress r = Inr address"
    and "getClientIPFromRequest (proxyCount l) r = Inr clientIP"
    and "0 < ttl l"
    and "ServeHTTP readAddress now next r (l, w, tr) = Inr (l', w', tr @ calls)"
    and "admitted calls"
  shows "w' = next r w \<and>
     (if Status w' \<noteq> 200 then
        items (cache l') address = None \<and> items (cache l') clientIP = None
        \<and> (\<forall>readAddress2 now2 next2 r2 w2 tr2.
              readAddress2 r2 = Inr address \<and> getClientIPFromRequest (proxyCount l') r2 = Inr clientIP
              \<longrightarrow> (\<exists>l2 w3 calls2.
                     ServeHTTP readAddress2 now2 next2 r2 (l', w2, tr2) = Inr (l2, w3, tr2 @ calls2)
                     \<and> admitted calls2))
      else
        items (cache l') address
          = Some \<lparr>item_ttl = ttl l, expireAt = (if address = clientIP then now 3 else now 2) + ttl l\<rparr>
        \<and> items (cache l') clientIP = Some \<lparr>item_ttl = ttl l, expireAt = now 3 + ttl l\<rparr>
        \<and> (\<forall>t. present (cache l') t address
                  = (t \<le> (if address = clientIP then now 3 else now 2) + ttl l))
        \<and> (\<forall>t. present (cache l') t clientIP = (t \<le> now 3 + ttl l)))"
proof -
  let ?c = "SetWithTTL (SetWithTTL (cache l) (now 2) address (ttl l)) (now 3) clientIP (ttl l)"
  have ok: "limiter_ok l" by (rule reachable_ok [OF assms(1)])
  from ServeHTTP_cases [OF ok assms(2-5)] assms(6)
  have w': "w' = next r w"
    and l': "l' = (if Status (next r w) \<noteq> StatusOK
                   then l\<lparr>cache := Remove (Remove ?c address) clientIP\<rparr> else l\<lparr>cache := ?c\<rparr>)"
    by auto
  show ?thesis
  proof (cases "Status (next r w) \<noteq> StatusOK")
    case True
    then have l'': "l' = l\<lparr>cache := Remove (Remove ?c address) clientIP\<rparr>" using l' by simp
    have none: "items (cache l') address = None" "items (cache l') clientIP = None"
      by (simp_all add: l'' Remove_items)
    have reach': "reachable l'" by (rule reachable.serve [OF assms(1) assms(5)])
    have ok': "limiter_ok l'" by (rule reachable_ok [OF reach'])
    then have skip': "skipTTLExtension (cache l')" and free': "\<not> mutex l'"
      by (simp_all add: limiter_ok_def)
    have pos': "0 < ttl l'" using assms(4) by (simp add: l'')
    have absent: "\<not> present (cache l') t address" "\<not> present (cache l') t clientIP" for t
      by (simp_all add: present_iff none)
    have again: "\<exists>l2 w3 calls2.
                   ServeHTTP readAddress2 now2 next2 r2 (l', w2, tr2) = Inr (l2, w3, tr2 @ calls2)
                   \<and> admitted calls2"
      if rd2: "readAddress2 r2 = Inr address"
        and ip2: "getClientIPFromRequest (proxyCount l') r2 = Inr clientIP"
      for readAddress2 now2 next2 r2 w2 tr2
      using ServeHTTP_skip [of l' readAddress2 r2 address clientIP now2 next2 w2 tr2,
              OF skip' free' rd2 ip2 pos']
      by (simp add: absent admitted_def)
    from True w' none again show ?thesis by (simp add: StatusOK_def)
  next
    case False
    then have l'': "l' = l\<lparr>cache := ?c\<rparr>" using l' by simp
    have a: "items (cache l') address
          = Some \<lparr>item_ttl = ttl l, expireAt = (if address = clientIP then now 3 else now 2) + ttl l\<rparr>"
      and b: "items (cache l') clientIP = Some \<lparr>item_ttl = ttl l, expireAt = now 3 + ttl l\<rparr>"
      using assms(4) by (simp_all add: l'' SetWithTTL_items)
    from False w' a b present_entry [OF a assms(4)] present_entry [OF b assms(4)]
    show ?thesis by (simp add: StatusOK_def)
  qed
qed

theorem rollback_on_failure_witness:
  "reachable (NewLimiter 0 (60 * Second))
   \<and> ServeHTTP (address_found ''0xabc'') (clock_from 0) (respond 500) example_request
        (NewLimiter 0 (60 * Second), newResponseWriter, [])
      = Inr ((NewLimiter 0 (60 * Second))
               \<lparr>cache := Remove (Remove (SetWithTTL (SetWithTTL (cache (NewLimiter 0 (60 * Second)))
                            2 ''0xabc'' (60 * Second)) 3 ''10.0.0.7'' (60 * Second)) ''0xabc'') ''10.0.0.7''\<rparr>,
             \<lparr>Status = 500, Body = []\<rparr>,
             [] @ [Mutex_Lock, Cache_GetWithTTL ''0xabc'', Cache_GetWithTTL ''10.0.0.7'',
                   Cache_SetWithTTL ''0xabc'' (60 * Second), Cache_SetWithTTL ''10.0.0.7'' (60 * Second),
                   Mutex_Unlock, Next_ServeHTTP, Cache_Remove ''0xabc'', Cache_Remove ''10.0.0.7''])
   \<and> items (cache ((NewLimiter 0 (60 * Second))
               \<lparr>cache := Remove (Remove (SetWithTTL (SetWithTTL (cache (NewLimiter 0 (60 * Second)))
                            2 ''0xabc'' (60 * Second)) 3 ''10.0.0.7'' (60 * Second)) ''0xabc'') ''10.0.0.7''\<rparr>))
          ''0xabc'' = None
   \<and> items (cache ((NewLimiter 0 (60 * Second))
               \<lparr>cache := Remove (Remove (SetWithTTL (SetWithTTL (cache (NewLimiter 0 (60 * Second)))
                            2 ''0xabc'' (60 * Second)) 3 ''10.0.0.7'' (60 * Second)) ''0xabc'') ''10.0.0.7''\<rparr>))
          ''10.0.0.7'' = None"
proof -
  let ?l = "NewLimiter 0 (60 * Second)"
  let ?l' = "?l\<lparr>cache := Remove (Remove (SetWithTTL (SetWithTTL (cache ?l)
                2 ''0xabc'' (60 * Second)) 3 ''10.0.0.7'' (60 * Second)) ''0xabc'') ''10.0.0.7''\<rparr>"
  let ?calls = "[Mutex_Lock, Cache_GetWithTTL ''0xabc'', Cache_GetWithTTL ''10.0.0.7'',
                   Cache_SetWithTTL ''0xabc'' (60 * Second), Cache_SetWithTTL ''10.0.0.7'' (60 * Second),
                   Mutex_Unlock, Next_ServeHTTP, Cache_Remove ''0xabc'', Cache_Remove ''10.0.0.7'']"
  have rd: "address_found ''0xabc'' example_request = Inr ''0xabc''"
    by (simp add: address_found_def)
  have ip: "getClientIPFromRequest (proxyCount ?l) example_request = Inr ''10.0.0.7''"
    by (simp add: NewLimiter_fields example_clientIP)
  have pos: "0 < ttl ?l" by (simp add: NewLimiter_fields Second_def)
  have run: "ServeHTTP (address_found ''0xabc'') (clock_from 0) (respond 500) example_request
        (?l, newResponseWriter, []) = Inr (?l', \<lparr>Status = 500, Body = []\<rparr>, [] @ ?calls)"
    using ServeHTTP_skip [of ?l "address_found ''0xabc''" example_request "''0xabc''"
         "''10.0.0.7''" "clock_from 0" "respond 500" newResponseWriter "[]",
         OF NewLimiter_fields(5) _ rd ip pos]
    by (simp add: NewLimiter_absent NewLimiter_fields respond_def newResponseWriter_def
          clock_from_def StatusOK_def)
  have adm: "admitted ?calls" by (simp add: admitted_def)
  from rollback_on_failure [of ?l "address_found ''0xabc''" example_request "''0xabc''" "''10.0.0.7''"
         "clock_from 0" "respond 500" newResponseWriter "[]" ?l' "\<lparr>Status = 500, Body = []\<rparr>" ?calls,
         OF reachable_example rd ip pos run adm]
       reachable_example run
  show ?thesis by simp
qed

subsection \<open>The text of a rejection\<close>

text \<open>
  Claim C3, amended. Every rejection issued by the rate limiter (every lookup in
  \<^verbatim>\<open>limitByKey\<close> that finds its key) renders the message
  \<^verbatim>\<open>You have exceeded the rate limit. Please wait D before you try again\<close> with status 429,
  where \<open>D\<close> is the key's remaining time rounded to the nearest second (halves upwards)
  and printed as Go prints a duration: for a remaining time more than a second below the
  largest Duration, \<open>N\<close> seconds are printed as \<open>hms N\<close>, that is as \<^verbatim>\<open>Ns\<close> below one
  minute, as \<^verbatim>\<open>MmSs\<close> below one hour and as \<^verbatim>\<open>HhMmSs\<close> from one hour on.
\<close>

theorem rejection_text:
  assumes "reachable l" and "fst (limitByKey now key (l, w, tr))"
  shows "limitByKey now key (l, w, tr)
           = (True, (l, renderJSON w \<lparr>Message = rejectionMessage (remainingTTL (cache l) now key)\<rparr> 429,
                     tr @ [Cache_GetWithTTL key,
                           RenderJSON (rejectionMessage (remainingTTL (cache l) now key)) 429]))
         \<and> 0 \<le> remainingTTL (cache l) now key
         \<and> (remainingTTL (cache l) now key + Second \<le> maxDuration \<longrightarrow>
              rejectionMessage (remainingTTL (cache l) now key)
                = ''You have exceeded the rate limit. Please wait ''
                    @ hms (nat ((2 * remainingTTL (cache l) now key + Second) div (2 * Second)))
                    @ '' before you try again''
              \<and> Duration_Round (remainingTTL (cache l) now key) Second
                  = int (nat ((2 * remainingTTL (cache l) now key + Second) div (2 * Second))) * Second)
         \<and> (\<forall>n. n < 60 \<longrightarrow> hms n = decimal n @ ''s'')"
proof -
  from reachable_ok [OF assms(1)] have skip: "skipTTLExtension (cache l)"
    by (simp add: limiter_ok_def)
  have a: "limitByKey now key (l, w, tr)
           = (True, (l, renderJSON w \<lparr>Message = rejectionMessage (remainingTTL (cache l) now key)\<rparr> 429,
                     tr @ [Cache_GetWithTTL key,
                           RenderJSON (rejectionMessage (remainingTTL (cache l) now key)) 429]))"
    using limitByKey_skip [OF skip, of now key w tr] assms(2)
    by (simp add: StatusTooManyRequests_def split: if_splits)
  have b: "0 \<le> remainingTTL (cache l) now key" by (rule remainingTTL_nonneg)
  have c: "hms n = decimal n @ ''s''" if "n < 60" for n using that by (simp add: hms_def)
  show ?thesis
    using a b c rejectionMessage_seconds [OF b] Duration_Round_seconds [OF b] by simp
qed

theorem rejection_text_witness:
  "reachable (admitted_limiter (60 * Second))
   \<and> fst (limitByKey 1000000000 ''0xabc'' (admitted_limiter (60 * Second), newResponseWriter, []))
   \<and> remainingTTL (cache (admitted_limiter (60 * Second))) 1000000000 ''0xabc'' = 59000000002
   \<and> limitByKey 1000000000 ''0xabc'' (admitted_limiter (60 * Second), newResponseWriter, [])
       = (True, (admitted_limiter (60 * Second),
                 \<lparr>Status = 429,
                    Body = [\<lparr>Message = ''You have exceeded the rate limit. Please wait 59s before you try again''\<rparr>]\<rparr>,
                 [Cache_GetWithTTL ''0xabc'',
                  RenderJSON ''You have exceeded the rate limit. Please wait 59s before you try again'' 429]))"
proof -
  have d: "0 < 60 * Second" "60 * Second \<le> maxDuration"
    by (simp_all add: Second_def maxDuration_def)
  have reach: "reachable (admitted_limiter (60 * Second))"
    by (rule admitted_limiter_reachable [OF d])
  have it: "items (cache (admitted_limiter (60 * Second))) ''0xabc''
              = Some \<lparr>item_ttl = 60 * Second, expireAt = 2 + 60 * Second\<rparr>"
    by (simp add: admitted_limiter_fields [OF d(1)])
  have pr: "present (cache (admitted_limiter (60 * Second))) 1000000000 ''0xabc''"
    using present_entry [OF it d(1), of 1000000000] by (simp add: Second_def)
  have rem: "remainingTTL (cache (admitted_limiter (60 * Second))) 1000000000 ''0xabc'' = 59000000002"
    using remainingTTL_entry [OF it d(1), of 1000000000] by (simp add: Second_def maxDuration_def)
  have small: "59000000002 + Second \<le> maxDuration" by (simp add: Second_def maxDuration_def)
  have h: "hms 59 = ''59s''" by (simp add: hms_def decimal_eval)
  have skip: "skipTTLExtension (cache (admitted_limiter (60 * Second)))"
    using reachable_ok [OF reach] by (simp add: limiter_ok_def)
  have hit: "fst (limitByKey 1000000000 ''0xabc'' (admitted_limiter (60 * Second), newResponseWriter, []))"
    using limitByKey_skip [OF skip, of 1000000000 "''0xabc''" newResponseWriter "[]"] pr by simp
  from rejection_text [OF reach hit] reach hit rem small
  show ?thesis
    by (simp add: h renderJSON_def newResponseWriter_def Second_def)
qed

text \<open>
  As stated, with \<^verbatim>\<open>Ns\<close> for every remaining time, claim C3 fails from one minute on: with
  a time to live of 90 seconds, a request admitted at clock reading 0 and repeated at
  clock reading 2 is told to wait \<^verbatim>\<open>1m30s\<close>, not \<^verbatim>\<open>90s\<close>.
\<close>

theorem rejection_text_counterexample:
  "ServeHTTP (address_found ''0xabc'') (clock_from 0) (respond 200) example_request
       (NewLimiter 0 (90 * Second), newResponseWriter, [])
     = Inr (admitted_limiter (90 * Second), \<lparr>Status = 200, Body = []\<rparr>,
            [Mutex_Lock, Cache_GetWithTTL ''0xabc'', Cache_GetWithTTL ''10.0.0.7'',
             Cache_SetWithTTL ''0xabc'' (90 * Second), Cache_SetWithTTL ''10.0.0.7'' (90 * Second),
             Mutex_Unlock, Next_ServeHTTP, Log_Info ''0xabc'' ''10.0.0.7''])
   \<and> ServeHTTP (address_found ''0xabc'') (clock_from 2) (respond 200) example_request
       (admitted_limiter (90 * Second), newResponseWriter, [])
     = Inr (admitted_limiter (90 * Second),
            \<lparr>Status = 429,
               Body = [\<lparr>Message = ''You have exceeded the rate limit. Please wait 1m30s before you try again''\<rparr>]\<rparr>,
            [Mutex_Lock, Cache_GetWithTTL ''0xabc'',
             RenderJSON ''You have exceeded the rate limit. Please wait 1m30s before you try again'' 429,
             Mutex_Unlock])
   \<and> ''You have exceeded the rate limit. Please wait 1m30s before you try again''
       \<noteq> ''You have exceeded the rate limit. Please wait 90s before you try again''"
proof -
  have d: "0 < 90 * Second" "90 * Second \<le> maxDuration"
    by (simp_all add: Second_def maxDuration_def)
  have msg: "rejectionMessage (90 * Second)
               = ''You have exceeded the rate limit. Please wait 1m30s before you try again''"
    by (simp add: rejectionMessage_def duration_eval)
  have t: "(2::int) \<le> 2" "(2::int) \<le> 2 + 90 * Second" by (simp_all add: Second_def)
  show ?thesis
    using example_admission [OF d]
      example_rejection [OF d t, of "respond 200" newResponseWriter "[]"]
    by (simp add: msg renderJSON_def newResponseWriter_def)
qed

subsection \<open>Requests within the time to live\<close>

text \<open>
  Claim C4, amended. After an admission that the next handler answered with status 200,
  every request that arrives within the time to live with the same address or the same
  client address is rejected and leaves the limiter, and so every expiry, unchanged. For
  each of the two keys the remaining time falls by exactly the time that passes between
  two lookups; the reported wait, which is the remaining time rounded to the second,
  never increases from one lookup to a later one, and decreases strictly when the lookups
  are at least one second apart.
\<close>

theorem limited_within_ttl:
  assumes reach: "reachable l"
    and rd: "readAddress r = Inr address"
    and ip: "getClientIPFromRequest (proxyCount l) r = Inr clientIP"
    and pos: "0 < ttl l"
    and run: "ServeHTTP readAddress now next r (l, w, tr) = Inr (l1, w1, tr @ calls)"
    and fin: "Log_Info address clientIP \<in> set calls"
    and clock: "now 2 \<le> now 3"
  shows
    "(\<forall>readAddress' now' next' r' w' tr' address' clientIP'.
        readAddress' r' = Inr address' \<and> getClientIPFromRequest (proxyCount l1) r' = Inr clientIP'
        \<and> (address' = address \<or> clientIP' = clientIP)
        \<and> now 3 \<le> now' 0 \<and> now' 0 \<le> now' 1 \<and> now' 1 \<le> now 2 + ttl l
        \<longrightarrow> (\<exists>cs. ServeHTTP readAddress' now' next' r' (l1, w', tr')
                     = Inr (l1,
                            renderJSON w'
                              \<lparr>Message = rejectionMessage
                                 (if present (cache l1) (now' 0) address'
                                  then remainingTTL (cache l1) (now' 0) address'
                                  else remainingTTL (cache l1) (now' 1) clientIP')\<rparr> 429,
                            tr' @ cs)
                   \<and> rejected cs \<and> \<not> admitted cs))
     \<and> (\<forall>key t1 t2.
          (key = address \<or> key = clientIP) \<and> now 3 \<le> t1 \<and> t1 \<le> t2 \<and> t2 \<le> now 2 + ttl l
          \<longrightarrow> present (cache l1) t1 key \<and> present (cache l1) t2 key
              \<and> remainingTTL (cache l1) t2 key = remainingTTL (cache l1) t1 key - (t2 - t1)
              \<and> Duration_Round (remainingTTL (cache l1) t2 key) Second
                  \<le> Duration_Round (remainingTTL (cache l1) t1 key) Second
              \<and> (t1 + Second \<le> t2 \<longrightarrow>
                    Duration_Round (remainingTTL (cache l1) t2 key) Second
                      < Duration_Round (remainingTTL (cache l1) t1 key) Second))"
proof -
  have ok: "limiter_ok l" by (rule reachable_ok [OF reach])
  then have max: "ttl l \<le> maxDuration" by (simp add: limiter_ok_def)
  have l1: "l1 = l\<lparr>cache := SetWithTTL (SetWithTTL (cache l) (now 2) address (ttl l))
                            (now 3) clientIP (ttl l)\<rparr>"
    by (rule finalized_state [OF ok rd ip pos run fin])
  define ea where "ea = (if address = clientIP then now 3 else now 2) + ttl l"
  have a: "items (cache l1) address = Some \<lparr>item_ttl = ttl l, expireAt = ea\<rparr>"
    and b: "items (cache l1) clientIP = Some \<lparr>item_ttl = ttl l, expireAt = now 3 + ttl l\<rparr>"
    using pos by (simp_all add: l1 SetWithTTL_items ea_def)
  have ea: "now 2 + ttl l \<le> ea" "ea - ttl l \<le> now 3"
    using clock by (simp_all add: ea_def)
  have reach1: "reachable l1" by (rule reachable.serve [OF reach run])
  have ok1: "limiter_ok l1" by (rule reachable_ok [OF reach1])
  then have skip1: "skipTTLExtension (cache l1)" and free1: "\<not> mutex l1"
    by (simp_all add: limiter_ok_def)
  have pos1: "0 < ttl l1" using pos by (simp add: l1)

  have part1: "\<exists>cs. ServeHTTP readAddress' now' next' r' (l1, w', tr')
                     = Inr (l1,
                            renderJSON w'
                              \<lparr>Message = rejectionMessage
                                 (if present (cache l1) (now' 0) address'
                                  then remainingTTL (cache l1) (now' 0) address'
                                  else remainingTTL (cache l1) (now' 1) clientIP')\<rparr> 429,
                            tr' @ cs)
                   \<and> rejected cs \<and> \<not> admitted cs"
    if rd': "readAddress' r' = Inr address'"
      and ip': "getClientIPFromRequest (proxyCount l1) r' = Inr clientIP'"
      and same: "address' = address \<or> clientIP' = clientIP"
      and later: "now 3 \<le> now' 0" "now' 0 \<le> now' 1" "now' 1 \<le> now 2 + ttl l"
    for readAddress' now' next' r' w' tr' address' clientIP'
  proof -
    have hit: "present (cache l1) (now' 0) address' \<or> present (cache l1) (now' 1) clientIP'"
      using same
    proof
      assume "address' = address"
      moreover have "present (cache l1) (now' 0) address"
        using present_entry [OF a pos, of "now' 0"] later ea by simp
      ultimately show ?thesis by simp
    next
      assume "clientIP' = clientIP"
      moreover have "present (cache l1) (now' 1) clientIP"
        using present_entry [OF b pos, of "now' 1"] later clock by simp
      ultimately show ?thesis by simp
    qed
    from ServeHTTP_skip [of l1 readAddress' r' address' clientIP' now' next' w' tr',
           OF skip1 free1 rd' ip' pos1] hit
    show ?thesis
      by (auto simp: rejected_def admitted_def StatusTooManyRequests_def)
  qed

  have part2: "present (cache l1) t1 key \<and> present (cache l1) t2 key
              \<and> remainingTTL (cache l1) t2 key = remainingTTL (cache l1) t1 key - (t2 - t1)
              \<and> Duration_Round (remainingTTL (cache l1) t2 key) Second
                  \<le> Duration_Round (remainingTTL (cache l1) t1 key) Second
              \<and> (t1 + Second \<le> t2 \<longrightarrow>
                    Duration_Round (remainingTTL (cache l1) t2 key) Second
                      < Duration_Round (remainingTTL (cache l1) t1 key) Second)"
    if key: "key = address \<or> key = clientIP"
      and t: "now 3 \<le> t1" "t1 \<le> t2" "t2 \<le> now 2 + ttl l"
    for key t1 t2
    using key
  proof
    assume k: "key = address"
    have t': "ea - ttl l \<le> t1" "t1 \<le> t2" "t2 \<le> ea" using t ea by simp_all
    from window_entry [OF a pos max t'] show ?thesis by (simp add: k)
  next
    assume k: "key = clientIP"
    have t': "now 3 + ttl l - ttl l \<le> t1" "t1 \<le> t2" "t2 \<le> now 3 + ttl l"
      using t clock by simp_all
    from window_entry [OF b pos max t'] show ?thesis by (simp add: k)
  qed
  from part1 part2 show ?thesis by blast
qed

theorem limited_within_ttl_witness:
  "reachable (NewLimiter 0 (60 * Second))
   \<and> ServeHTTP (address_found ''0xabc'') (clock_from 0) (respond 200) example_request
        (NewLimiter 0 (60 * Second), newResponseWriter, [])
      = Inr (admitted_limiter (60 * Second), \<lparr>Status = 200, Body = []\<rparr>,
             [] @ [Mutex_Lock, Cache_GetWithTTL ''0xabc'', Cache_GetWithTTL ''10.0.0.7'',
                   Cache_SetWithTTL ''0xabc'' (60 * Second), Cache_SetWithTTL ''10.0.0.7'' (60 * Second),
                   Mutex_Unlock, Next_ServeHTTP, Log_Info ''0xabc'' ''10.0.0.7''])
   \<and> clock_from 0 2 \<le> clock_from 0 3
   \<and> present (cache (admitted_limiter (60 * Second))) 1000000000 ''0xabc''
   \<and> present (cache (admitted_limiter (60 * Second))) 5000000000 ''0xabc''
   \<and> Duration_Round (remainingTTL (cache (admitted_limiter (60 * Second))) 5000000000 ''0xabc'') Second
       < Duration_Round (remainingTTL (cache (admitted_limiter (60 * Second))) 1000000000 ''0xabc'') Second"
proof -
  let ?calls = "[Mutex_Lock, Cache_GetWithTTL ''0xabc'', Cache_GetWithTTL ''10.0.0.7'',
                   Cache_SetWithTTL ''0xabc'' (60 * Second), Cache_SetWithTTL ''10.0.0.7'' (60 * Second),
                   Mutex_Unlock, Next_ServeHTTP, Log_Info ''0xabc'' ''10.0.0.7'']"
  have d: "0 < 60 * Second" "60 * Second \<le> maxDuration"
    by (simp_all add: Second_def maxDuration_def)
  have rd: "address_found ''0xabc'' example_request = Inr ''0xabc''"
    by (simp add: address_found_def)
  have ip: "getClientIPFromRequest (proxyCount (NewLimiter 0 (60 * Second))) example_request
              = Inr ''10.0.0.7''"
    by (simp add: NewLimiter_fields example_clientIP)
  have pos: "0 < ttl (NewLimiter 0 (60 * Second))" by (simp add: NewLimiter_fields Second_def)
  have run: "ServeHTTP (address_found ''0xabc'') (clock_from 0) (respond 200) example_request
        (NewLimiter 0 (60 * Second), newResponseWriter, [])
      = Inr (admitted_limiter (60 * Second), \<lparr>Status = 200, Body = []\<rparr>, [] @ ?calls)"
    using example_admission [OF d] by simp
  have fin: "Log_Info ''0xabc'' ''10.0.0.7'' \<in> set ?calls" by simp
  have clock: "clock_from 0 2 \<le> clock_from 0 3" by (simp add: clock_from_def)
  have win: "(''0xabc'' = ''0xabc'' \<or> ''0xabc'' = ''10.0.0.7'')
             \<and> clock_from 0 3 \<le> 1000000000 \<and> (1000000000::int) \<le> 5000000000
             \<and> 5000000000 \<le> clock_from 0 2 + ttl (NewLimiter 0 (60 * Second))"
    by (simp add: clock_from_def NewLimiter_fields Second_def)
  have far: "(1000000000::int) + Second \<le> 5000000000" by (simp add: Second_def)
  from limited_within_ttl [of "NewLimiter 0 (60 * Second)" "address_found ''0xabc''" example_request
         "''0xabc''" "''10.0.0.7''" "clock_from 0" "respond 200" newResponseWriter "[]"
         "admitted_limiter (60 * Second)" "\<lparr>Status = 200, Body = []\<rparr>" ?calls,
         OF reachable_example rd ip pos run fin clock]
  have "present (cache (admitted_limiter (60 * Second))) 1000000000 ''0xabc''
        \<and> present (cache (admitted_limiter (60 * Second))) 5000000000 ''0xabc''
        \<and> Duration_Round (remainingTTL (cache (admitted_limiter (60 * Second))) 5000000000 ''0xabc'') Second
            < Duration_Round (remainingTTL (cache (admitted_limiter (60 * Second))) 1000000000 ''0xabc'') Second"
    using win far by blast
  with reachable_example run clock show ?thesis by simp
qed

text \<open>
  As stated, with a reported wait that decreases strictly from every lookup to the next,
  claim C4 fails: two requests a tenth of a second apart are both told to wait \<^verbatim>\<open>59s\<close>.
\<close>

theorem decreasing_wait_counterexample:
  "ServeHTTP (address_found ''0xabc'') (clock_from 0) (respond 200) example_request
       (NewLimiter 0 (60 * Second), newResponseWriter, [])
     = Inr (admitted_limiter (60 * Second), \<lparr>Status = 200, Body = []\<rparr>,
            [Mutex_Lock, Cache_GetWithTTL ''0xabc'', Cache_GetWithTTL ''10.0.0.7'',
             Cache_SetWithTTL ''0xabc'' (60 * Second), Cache_SetWithTTL ''10.0.0.7'' (60 * Second),
             Mutex_Unlock, Next_ServeHTTP, Log_Info ''0xabc'' ''10.0.0.7''])
   \<and> ServeHTTP (address_found ''0xabc'') (clock_from 1000000000) (respond 200) example_request
       (admitted_limiter (60 * Second), newResponseWriter, [])
     = Inr (admitted_limiter (60 * Second),
            \<lparr>Status = 429,
               Body = [\<lparr>Message = ''You have exceeded the rate limit. Please wait 59s before you try again''\<rparr>]\<rparr>,
            [Mutex_Lock, Cache_GetWithTTL ''0xabc'',
             RenderJSON ''You have exceeded the rate limit. Please wait 59s before you try again'' 429,
             Mutex_Unlock])
   \<and> ServeHTTP (address_found ''0xabc'') (clock_from 1100000000) (respond 200) example_request
       (admitted_limiter (60 * Second), newResponseWriter, [])
     = Inr (admitted_limiter (60 * Second),
            \<lparr>Status = 429,
               Body = [\<lparr>Message = ''You have exceeded the rate limit. Please wait 59s before you try again''\<rparr>]\<rparr>,
            [Mutex_Lock, Cache_GetWithTTL ''0xabc'',
             RenderJSON ''You have exceeded the rate limit. Please wait 59s before you try again'' 429,
             Mutex_Unlock])"
proof -
  have d: "0 < 60 * Second" "60 * Second \<le> maxDuration"
    by (simp_all add: Second_def maxDuration_def)
  have m1: "rejectionMessage 59000000002
              = ''You have exceeded the rate limit. Please wait 59s before you try again''"
    by (simp add: rejectionMessage_def duration_eval)
  have m2: "rejectionMessage 58900000002
              = ''You have exceeded the rate limit. Please wait 59s before you try again''"
    by (simp add: rejectionMessage_def duration_eval)
  have t1: "(2::int) \<le> 1000000000" "(1000000000::int) \<le> 2 + 60 * Second"
    and t2: "(2::int) \<le> 1100000000" "(1100000000::int) \<le> 2 + 60 * Second"
    by (simp_all add: Second_def)
  have e1: "2 + 60 * Second - 1000000000 = 59000000002"
    and e2: "2 + 60 * Second - 1100000000 = 58900000002"
    by (simp_all add: Second_def)
  show ?thesis
    using example_admission [OF d]
      example_rejection [OF d t1, of "respond 200" newResponseWriter "[]"]
      example_rejection [OF d t2, of "respond 200" newResponseWriter "[]"]
    unfolding e1 e2 m1 m2
    by (simp add: renderJSON_def newResponseWriter_def)
qed

section \<open>Properties of the identity resolver\<close>

subsection \<open>The forwarded-for token\<close>

text \<open>
  Claim C5. With a positive proxy count and a forwarded-for header (one whose value
  \<^verbatim>\<open>Header.Get\<close> returns is not empty), the resolver splits the value at its commas and
  returns, trimmed of surrounding white space, the token at index
  \<open>length tokens - proxyCount\<close>, or at index 0 when that would be negative. The index is
  always in range, so the index expression never panics. The tokens are the parts between
  the commas: none contains a comma, and joined with commas they give the header back.
  In particular the header \<^verbatim>\<open>1.2.3.4, 10.0.0.1, 10.0.0.2\<close> with proxy count 2 gives
  \<^verbatim>\<open>10.0.0.1\<close>, and the header \<^verbatim>\<open>1.2.3.4\<close> with proxy count 5 gives \<^verbatim>\<open>1.2.3.4\<close>.
\<close>

theorem forwarded_for_token:
  assumes "0 < pc" and "Header_Get (Header r) ''X-Forwarded-For'' = xff" and "xff \<noteq> []"
  shows "getClientIPFromRequest pc r
           = Inr (TrimSpace (Split xff CHR '','' ! nat (max 0 (int (length (Split xff CHR '','')) - pc))))
         \<and> nat (max 0 (int (length (Split xff CHR '','')) - pc)) < length (Split xff CHR '','')
         \<and> concat (map (\<lambda>p. p @ '','') (Split xff CHR '','')) = xff @ '',''
         \<and> (\<forall>p \<in> set (Split xff CHR '',''). CHR '','' \<notin> set p)
         \<and> getClientIPFromRequest 2
               \<lparr>Header = [''X-Forwarded-For'' \<mapsto> [''1.2.3.4, 10.0.0.1, 10.0.0.2'']],
                  RemoteAddr = ''9.9.9.9:80''\<rparr> = Inr ''10.0.0.1''
         \<and> getClientIPFromRequest 5
               \<lparr>Header = [''X-Forwarded-For'' \<mapsto> [''1.2.3.4'']], RemoteAddr = ''9.9.9.9:80''\<rparr>
             = Inr ''1.2.3.4''"
proof -
  let ?parts = "Split xff CHR '',''"
  have len: "0 < length ?parts" using Split_not_Nil [of xff "CHR '',''"] by simp
  have idx: "nat (max 0 (int (length ?parts) - pc)) < length ?parts"
    using len assms(1) by (auto simp: max_def)
  have "getClientIPFromRequest pc r
          = Inr (TrimSpace (?parts ! nat (max 0 (int (length ?parts) - pc))))"
    using assms len idx by (auto simp: getClientIPFromRequest_def index_def Let_def max_def)
  moreover have "concat (map (\<lambda>p. p @ '','') ?parts) = xff @ '',''" by (rule Split_join)
  moreover have "\<forall>p \<in> set ?parts. CHR '','' \<notin> set p" using Split_no_sep by blast
  ultimately show ?thesis using idx forwarded_example_1 forwarded_example_2 by blast
qed

theorem forwarded_for_token_witness:
  "(0::int) < 2
   \<and> Header_Get (Header \<lparr>Header = [''X-Forwarded-For'' \<mapsto> [''203.0.113.9 , 10.0.0.1,10.0.0.2'']],
                           RemoteAddr = ''9.9.9.9:80''\<rparr>) ''X-Forwarded-For''
       = ''203.0.113.9 , 10.0.0.1,10.0.0.2''
   \<and> Split ''203.0.113.9 , 10.0.0.1,10.0.0.2'' CHR '','' = [''203.0.113.9 '', '' 10.0.0.1'', ''10.0.0.2'']
   \<and> getClientIPFromRequest 2
         \<lparr>Header = [''X-Forwarded-For'' \<mapsto> [''203.0.113.9 , 10.0.0.1,10.0.0.2'']],
            RemoteAddr = ''9.9.9.9:80''\<rparr> = Inr ''10.0.0.1''
   \<and> getClientIPFromRequest 7
         \<lparr>Header = [''X-Forwarded-For'' \<mapsto> [''203.0.113.9 , 10.0.0.1,10.0.0.2'']],
            RemoteAddr = ''9.9.9.9:80''\<rparr> = Inr ''203.0.113.9''"
proof -
  let ?r = "\<lparr>Header = [''X-Forwarded-For'' \<mapsto> [''203.0.113.9 , 10.0.0.1,10.0.0.2'']],
             RemoteAddr = ''9.9.9.9:80''\<rparr>"
  have h: "Header_Get (Header ?r) ''X-Forwarded-For'' = ''203.0.113.9 , 10.0.0.1,10.0.0.2''"
    by (simp add: Header_Get_def)
  have s: "Split ''203.0.113.9 , 10.0.0.1,10.0.0.2'' CHR '','' = [''203.0.113.9 '', '' 10.0.0.1'', ''10.0.0.2'']"
    by simp
  have t1: "TrimSpace '' 10.0.0.1'' = ''10.0.0.1''" by (simp add: trim_eval)
  have t2: "TrimSpace ''203.0.113.9 '' = ''203.0.113.9''" by (simp add: trim_eval)
  from forwarded_for_token [of 2 ?r "''203.0.113.9 , 10.0.0.1,10.0.0.2''"] h
  have a: "getClientIPFromRequest 2 ?r = Inr ''10.0.0.1''"
    unfolding s by (simp add: t1)
  from forwarded_for_token [of 7 ?r "''203.0.113.9 , 10.0.0.1,10.0.0.2''"] h
  have b: "getClientIPFromRequest 7 ?r = Inr ''203.0.113.9''"
    unfolding s by (simp add: t2)
  from a b h s show ?thesis by simp
qed

subsection \<open>Totality and the fallback\<close>

text \<open>
  Claim C7. For every proxy count and request the resolver returns a string and does not
  panic. When no forwarded-for token is used (the proxy count is not positive or the
  header is absent or empty) it returns the host of the remote address when
  \<^verbatim>\<open>net.SplitHostPort\<close> can split it, and the remote address unchanged when that fails. The
  split succeeds on \<^verbatim>\<open>host:port\<close> and on \<^verbatim>\<open>[host]:port\<close>, giving the host without port and
  brackets, and fails on an address without a colon.
\<close>

theorem client_ip_never_fails:
  "(\<exists>ip. getClientIPFromRequest pc r = Inr ip)
   \<and> (pc \<le> 0 \<or> Header_Get (Header r) ''X-Forwarded-For'' = [] \<longrightarrow>
        getClientIPFromRequest pc r
          = Inr (case SplitHostPort (RemoteAddr r) of
                   Inl err \<Rightarrow> RemoteAddr r
                 | Inr (host, port) \<Rightarrow> host))
   \<and> (\<forall>host port.
         CHR '':'' \<notin> set host \<and> CHR ''['' \<notin> set host \<and> CHR '']'' \<notin> set host
         \<and> CHR '':'' \<notin> set port \<and> CHR ''['' \<notin> set port \<and> CHR '']'' \<notin> set port
         \<longrightarrow> SplitHostPort (host @ '':'' @ port) = Inr (host, port))
   \<and> (\<forall>host port.
         CHR ''['' \<notin> set host \<and> CHR '']'' \<notin> set host
         \<and> CHR '':'' \<notin> set port \<and> CHR ''['' \<notin> set port \<and> CHR '']'' \<notin> set port
         \<longrightarrow> SplitHostPort (''['' @ host @ '']:'' @ port) = Inr (host, port))
   \<and> (\<forall>s. CHR '':'' \<notin> set s \<longrightarrow> SplitHostPort s = Inl (AddrError ''missing port in address'' s))"
proof -
  have "pc \<le> 0 \<or> Header_Get (Header r) ''X-Forwarded-For'' = [] \<longrightarrow>
        getClientIPFromRequest pc r
          = Inr (case SplitHostPort (RemoteAddr r) of
                   Inl err \<Rightarrow> RemoteAddr r
                 | Inr (host, port) \<Rightarrow> host)"
    by (auto simp: getClientIPFromRequest_def Let_def split: sum.splits)
  then show ?thesis
    using getClientIPFromRequest_total [of pc r]
      SplitHostPort_plain SplitHostPort_bracketed SplitHostPort_no_colon
    by blast
qed

theorem client_ip_never_fails_witness:
  "getClientIPFromRequest 0 \<lparr>Header = Map.empty, RemoteAddr = ''10.0.0.7:5000''\<rparr> = Inr ''10.0.0.7''
   \<and> getClientIPFromRequest 3 \<lparr>Header = Map.empty, RemoteAddr = ''[2001:db8::1]:443''\<rparr>
       = Inr ''2001:db8::1''
   \<and> getClientIPFromRequest 0
         \<lparr>Header = [''X-Forwarded-For'' \<mapsto> [''1.2.3.4'']], RemoteAddr = ''unix-socket''\<rparr>
       = Inr ''unix-socket''"
proof -
  let ?r1 = "\<lparr>Header = Map.empty, RemoteAddr = ''10.0.0.7:5000''\<rparr>"
  let ?r2 = "\<lparr>Header = Map.empty, RemoteAddr = ''[2001:db8::1]:443''\<rparr>"
  let ?r3 = "\<lparr>Header = [''X-Forwarded-For'' \<mapsto> [''1.2.3.4'']], RemoteAddr = ''unix-socket''\<rparr>"
  note t1 = client_ip_never_fails [of 0 ?r1]
  note t2 = client_ip_never_fails [of 3 ?r2]
  note t3 = client_ip_never_fails [of 0 ?r3]
  from t1 have "\<forall>host port.
         CHR '':'' \<notin> set host \<and> CHR ''['' \<notin> set host \<and> CHR '']'' \<notin> set host
         \<and> CHR '':'' \<notin> set port \<and> CHR ''['' \<notin> set port \<and> CHR '']'' \<notin> set port
         \<longrightarrow> SplitHostPort (host @ '':'' @ port) = Inr (host, port)"
    by blast
  from this [rule_format, of "''10.0.0.7''" "''5000''"]
  have p: "SplitHostPort ''10.0.0.7:5000'' = Inr (''10.0.0.7'', ''5000'')" by simp
  from t1 have "getClientIPFromRequest 0 ?r1
          = Inr (case SplitHostPort (RemoteAddr ?r1) of Inl err \<Rightarrow> RemoteAddr ?r1 | Inr (host, port) \<Rightarrow> host)"
    by simp
  then have a: "getClientIPFromRequest 0 ?r1 = Inr ''10.0.0.7''" by (simp add: p)
  from t2 have "\<forall>host port.
         CHR ''['' \<notin> set host \<and> CHR '']'' \<notin> set host
         \<and> CHR '':'' \<notin> set port \<and> CHR ''['' \<notin> set port \<and> CHR '']'' \<notin> set port
         \<longrightarrow> SplitHostPort (''['' @ host @ '']:'' @ port) = Inr (host, port)"
    by blast
  from this [rule_format, of "''2001:db8::1''" "''443''"]
  have q: "SplitHostPort ''[2001:db8::1]:443'' = Inr (''2001:db8::1'', ''443'')" by simp
  from t2 have "getClientIPFromRequest 3 ?r2
          = Inr (case SplitHostPort (RemoteAddr ?r2) of Inl err \<Rightarrow> RemoteAddr ?r2 | Inr (host, port) \<Rightarrow> host)"
    by (simp add: Header_Get_def)
  then have b: "getClientIPFromRequest 3 ?r2 = Inr ''2001:db8::1''" by (simp add: q)
  from t3 have "\<forall>s. CHR '':'' \<notin> set s \<longrightarrow> SplitHostPort s = Inl (AddrError ''missing port in address'' s)"
    by blast
  from this [rule_format, of "''unix-socket''"]
  have n: "SplitHostPort ''unix-socket'' = Inl (AddrError ''missing port in address'' ''unix-socket'')"
    by simp
  from t3 have "getClientIPFromRequest 0 ?r3
          = Inr (case SplitHostPort (RemoteAddr ?r3) of Inl err \<Rightarrow> RemoteAddr ?r3 | Inr (host, port) \<Rightarrow> host)"
    by simp
  then have c: "getClientIPFromRequest 0 ?r3 = Inr ''unix-socket''" by (simp add: n)
  from a b c show ?thesis by simp
qed

end
